theory Spec2Isabelle
  imports Complex_Main "HOL-Library.AList"
begin
section \<open>Data model (src/components/synctexjs.ts, lines 36-98)\<close>

text \<open>
  The theory embeds the SyncTeX decoder of \<open>src/components/synctexjs.ts\<close>: the parser
  \<open>parseSyncTex\<close>, the covering rectangle \<open>getCoveringRectangle\<close> and the two queries
  \<open>syncTexJsForward\<close> and \<open>syncTexJsBackward\<close>. What the model leaves out of JavaScript:

  \<^item> Numbers are modelled by their mathematical values: lengths are \<open>real\<close>; file
    numbers, line numbers and page numbers (all produced by \<open>parseInt\<close> on a run of
    decimal digits) are \<open>nat\<close>; the depth of a vertical block (a signed run of digits)
    is \<open>int\<close>. \<open>NaN\<close> and \<open>Infinity\<close> are not modelled. The rounding of every
    arithmetic result to an IEEE double is modelled in forward search, whose interpolation
    depends on it; the parser, the covering rectangle and backward search compute with
    the exact values.
  \<^item> A string is a list of 8-bit characters.
  \<^item> An object has its own properties only: the properties that every object inherits
    from \<open>Object.prototype\<close> (a file named \<open>constructor\<close> would meet one) are not
    modelled.

  A field that TypeScript declares optional, or that can hold \<open>undefined\<close> at run time,
  is an \<open>option\<close>. Field names are the source's, with a suffix where two types share a
  name or the name is reserved: \<open>_p\<close> for \<open>Page\<close>, \<open>_b\<close> for \<open>type\<close> and \<open>file\<close> of a
  \<open>Block\<close>.
\<close>

datatype error =
    SyncTexJsError string  \<comment> \<open>\<open>throw new SyncTexJsError(msg)\<close>\<close>
  | TypeError              \<comment> \<open>the engine's own error on reading through \<open>undefined\<close>\<close>

record File =
  path :: string

record Page =
  page_p :: nat
  blocks_p :: "nat list"
  type_p :: string

text \<open>
  Block objects are shared and mutated while the file is parsed (a block is reachable from
  \<open>currentElement\<close>, from its children's \<open>parent\<close> and from \<open>hBlocks\<close>), so they live in
  an explicit store, a list indexed by address, and a reference to a block is its address:
  \<open>blocks\<close>, \<open>elements\<close> and \<open>hBlocks\<close> are lists of addresses.
  A page object is never changed after it is created (the parser only pushes onto the
  \<open>blocks\<close> of a parent that is a block), so \<open>parent: Block | Page\<close> holds a page by
  value and a block by address. An element is never changed after it is created either,
  and the index \<open>blockNumberLine\<close>, which holds elements only, holds them by value.
\<close>

datatype Parent = ParentPage Page | ParentBlock nat

record Block =
  type_b :: string
  parent :: Parent
  fileNumber :: nat
  file_b :: "File option"
  line :: nat
  left :: real
  bottom :: real
  width :: "real option"
  height :: real
  depth :: "int option"
  blocks :: "nat list option"
  elements :: "nat list option"
  page :: nat

record Offset =
  offset_x :: real
  offset_y :: real

subsection \<open>Objects used as dictionaries\<close>

text \<open>
  \<open>Files\<close>, \<open>Pages\<close> and the three levels of \<open>BlockNumberLine\<close> are plain JavaScript
  objects. An object is modelled as the list of its own properties in the order in which
  they were created: reading a property is \<open>map_of\<close>, writing one is \<open>AList.update\<close>
  (an existing property keeps its place, a new one goes to the end).

  \<open>Object.keys\<close> and \<open>for ... in\<close> do not enumerate in creation order alone: the keys
  that are array indices (the canonical decimal form of an integer below \<open>2^32 - 1\<close>)
  come first, in ascending numeric order, and the other keys follow in creation order.
  \<open>ownKeys\<close> takes the function that tells which keys are array indices.
  The objects keyed by a line number or a page number are keyed by the number itself
  here (\<open>Number(String(n)) = n\<close> for the integers of the model).
\<close>

type_synonym ('k, 'v) obj = "('k \<times> 'v) list"

definition ownKeys :: "('k \<Rightarrow> nat option) \<Rightarrow> ('k, 'v) obj \<Rightarrow> 'k list" where
  "ownKeys idx ob =
     (let ks = map fst ob
      in sort_key (\<lambda>k. the (idx k)) (filter (\<lambda>k. idx k \<noteq> None) ks)
         @ filter (\<lambda>k. idx k = None) ks)"

definition indexOfNumber :: "nat \<Rightarrow> nat option" where
  "indexOfNumber n = (if n < 4294967295 then Some n else None)"

definition isDigit :: "char \<Rightarrow> bool" where
  "isDigit c = (c \<in> set ''0123456789'')"

definition parseInt :: "string \<Rightarrow> nat" where
  \<comment> \<open>\<open>parseInt\<close> on a run of decimal digits\<close>
  "parseInt ds = foldl (\<lambda>n c. 10 * n + (of_char c - 48)) 0 ds"

definition indexOfString :: "string \<Rightarrow> nat option" where
  "indexOfString s =
     (if s \<noteq> [] \<and> list_all isDigit s \<and> (s = ''0'' \<or> hd s \<noteq> CHR ''0'')
         \<and> parseInt s < 4294967295
      then Some (parseInt s) else None)"

type_synonym Files = "(string, File) obj"
type_synonym Pages = "(string, Page) obj"
type_synonym PageBlocks = "(nat, Block list) obj"
type_synonym LinePageBlocks = "(nat, PageBlocks) obj"
type_synonym BlockNumberLine = "(string, LinePageBlocks) obj"

record PdfSyncObject =
  offset :: Offset
  version :: string
  files :: Files
  pages :: Pages
  blockNumberLine :: BlockNumberLine
  hBlocks :: "nat list"
  numberPages :: nat
  store :: "Block list"  \<comment> \<open>the block objects that \<open>hBlocks\<close>, \<open>parent\<close>, \<open>blocks\<close> and \<open>elements\<close> point to\<close>

section \<open>Covering rectangle (lines 362-387)\<close>

record Rect =
  cTop :: real
  cBottom :: real
  cLeft :: real
  cRight :: real

definition coverBlock :: "Rect \<Rightarrow> Block \<Rightarrow> Rect" where
  \<comment> \<open>the body of the loop \<open>for (const b of blocks)\<close>\<close>
  "coverBlock c b =
     (let c1 = (if bottom b > cBottom c then c\<lparr>cBottom := bottom b\<rparr> else c);
          top1 = bottom b - height b;
          c2 = (if top1 < cTop c1 then c1\<lparr>cTop := top1\<rparr> else c1);
          c3 = (if left b < cLeft c2 then c2\<lparr>cLeft := left b\<rparr> else c2)
      in case width b of
           None \<Rightarrow> c3
         | Some w \<Rightarrow>
             (let right1 = left b + w
              in if right1 > cRight c3 then c3\<lparr>cRight := right1\<rparr> else c3))"

definition getCoveringRectangle :: "Block list \<Rightarrow> Rect" where
  "getCoveringRectangle bs =
     foldl coverBlock \<lparr>cTop = 20000000000000000, cBottom = 0, cLeft = 20000000000000000, cRight = 0\<rparr> bs"

section \<open>Arithmetic on doubles\<close>

text \<open>
  A JavaScript number is an IEEE 754 binary64 value, and every arithmetic operation
  rounds its exact result to the nearest such value, to the one with an even significand
  when two are equally near. \<open>double x\<close> is that value for the real number \<open>x\<close>: the
  doubles around \<open>x\<close> are the multiples of \<open>2^(e - 52)\<close>, where \<open>2^e \<le> |x| < 2^(e + 1)\<close>,
  and of \<open>2^(-1074)\<close> below \<open>2^(-1022)\<close>. A result that is too large for a double
  (\<open>2^1024 - 2^970\<close> or more in magnitude), which the program holds as \<open>Infinity\<close>, is
  not modelled, nor is the sign of zero.
\<close>

definition roundEven :: "real \<Rightarrow> int" where
  \<comment> \<open>the nearest integer, the even one of the two when \<open>z\<close> is half way\<close>
  "roundEven z =
     (let n = \<lfloor>z\<rfloor>; d = z - of_int n
      in if d < 1 / 2 then n else if 1 / 2 < d then n + 1 else if even n then n else n + 1)"

definition double :: "real \<Rightarrow> real" where
  "double x =
     (if x = 0 then 0
      else (let e = max \<lfloor>log 2 \<bar>x\<bar>\<rfloor> (- 1022); q = 2 powr (of_int e - 52)
            in of_int (roundEven (x / q)) * q))"

definition jsAdd :: "real \<Rightarrow> real \<Rightarrow> real" where
  \<comment> \<open>\<open>a + b\<close> on numbers\<close>
  "jsAdd a b = double (a + b)"

definition jsSub :: "real \<Rightarrow> real \<Rightarrow> real" where
  \<comment> \<open>\<open>a - b\<close>\<close>
  "jsSub a b = double (a - b)"

definition jsMul :: "real \<Rightarrow> real \<Rightarrow> real" where
  \<comment> \<open>\<open>a * b\<close>\<close>
  "jsMul a b = double (a * b)"

definition jsDiv :: "real \<Rightarrow> real \<Rightarrow> real" where
  \<comment> \<open>\<open>a / b\<close>, for \<open>b\<close> other than zero\<close>
  "jsDiv a b = double (a / b)"

section \<open>Forward search (lines 334-360)\<close>

text \<open>
  \<open>syncTexJsForward(line, filePath, pdfFile)\<close> first reads and parses the SyncTeX file of
  \<open>pdfFile\<close>; the model takes the parsed \<open>PdfSyncObject\<close> in its place. Reading a property
  of \<open>undefined\<close>, \<open>Object.keys(undefined)\<close> and iterating over \<open>undefined\<close> throw a
  \<open>TypeError\<close>; an array read out of range gives \<open>undefined\<close>, here \<open>None\<close>.
  The sums, differences, products and quotients of lines 346, 358 and 359 are those of
  doubles: \<open>jsAdd\<close>, \<open>jsSub\<close>, \<open>jsMul\<close> and \<open>jsDiv\<close>, in the order in which the program
  evaluates them.
\<close>

record SyncTeXRecordForward =
  page_fw :: nat
  x_fw :: real
  y_fw :: real

fun findIndex :: "('a \<Rightarrow> bool) \<Rightarrow> 'a list \<Rightarrow> int" where
  "findIndex P [] = - 1"
| "findIndex P (a # as) =
     (if P a then 0 else (let j = findIndex P as in if j < 0 then - 1 else j + 1))"

definition atIndex :: "'a list \<Rightarrow> int \<Rightarrow> 'a option" where
  \<comment> \<open>\<open>xs[i]\<close>\<close>
  "atIndex xs i = (if 0 \<le> i \<and> nat i < length xs then Some (xs ! nat i) else None)"

definition firstPageBlocks :: "LinePageBlocks \<Rightarrow> nat option \<Rightarrow> error + Block list" where
  \<comment> \<open>\<open>pageBlocks = linePageBlocks[l]; page = Object.keys(pageBlocks)[0];
      blocks = pageBlocks[Number(page)]\<close>, then \<open>getCoveringRectangle(blocks)\<close> iterates over
      \<open>blocks\<close>: the three statements that lines 342-345, 349-352 and 354-357 repeat\<close>
  "firstPageBlocks linePageBlocks l =
     (case (case l of None \<Rightarrow> None | Some n \<Rightarrow> map_of linePageBlocks n) of
        None \<Rightarrow> Inl TypeError
      | Some pageBlocks \<Rightarrow>
          (case ownKeys indexOfNumber pageBlocks of
             [] \<Rightarrow> Inl TypeError
           | pg # _ \<Rightarrow>
               (case map_of pageBlocks pg of
                  None \<Rightarrow> Inl TypeError
                | Some bs \<Rightarrow> Inr bs)))"

definition syncTexJsForward :: "nat \<Rightarrow> string \<Rightarrow> PdfSyncObject \<Rightarrow> error + SyncTeXRecordForward" where
  "syncTexJsForward lineNo filePath pdfSyncObject =
     (case map_of (blockNumberLine pdfSyncObject) filePath of
        None \<Rightarrow> Inl TypeError
      | Some linePageBlocks \<Rightarrow>
          (let lineNums = sort (ownKeys indexOfNumber linePageBlocks);
               i = findIndex (\<lambda>n. n \<ge> lineNo) lineNums
           in if i = 0 \<or> atIndex lineNums i = Some lineNo then
                (case firstPageBlocks linePageBlocks (atIndex lineNums i) of
                   Inl e \<Rightarrow> Inl e
                 | Inr bs \<Rightarrow>
                     (let c = getCoveringRectangle bs
                      in case bs of
                           [] \<Rightarrow> Inl TypeError
                         | b # _ \<Rightarrow>
                             Inr \<lparr>page_fw = page b,
                                  x_fw = jsAdd (cLeft c) (offset_x (offset pdfSyncObject)),
                                  y_fw = jsAdd (cBottom c) (offset_y (offset pdfSyncObject))\<rparr>))
              else
                (case firstPageBlocks linePageBlocks (atIndex lineNums (i - 1)) of
                   Inl e \<Rightarrow> Inl e
                 | Inr blocks0 \<Rightarrow>
                     (let c0 = getCoveringRectangle blocks0
                      in case firstPageBlocks linePageBlocks (atIndex lineNums i) of
                           Inl e \<Rightarrow> Inl e
                         | Inr blocks1 \<Rightarrow>
                             (let c1 = getCoveringRectangle blocks1;
                                  line0 = real (the (atIndex lineNums (i - 1)));
                                  line1 = real (the (atIndex lineNums i));
                                  bottom1 =
                                    jsAdd
                                      (jsDiv (jsMul (cBottom c0) (jsSub line1 (real lineNo)))
                                         (jsSub line1 line0))
                                      (jsDiv (jsMul (cBottom c1) (jsSub (real lineNo) line0))
                                         (jsSub line1 line0))
                              in case blocks1 of
                                   [] \<Rightarrow> Inl TypeError
                                 | b # _ \<Rightarrow>
                                     Inr \<lparr>page_fw = page b,
                                          x_fw = jsAdd (cLeft c1) (offset_x (offset pdfSyncObject)),
                                          y_fw = jsAdd bottom1 (offset_y (offset pdfSyncObject))\<rparr>)))))"

section \<open>Backward search (lines 389-438)\<close>

record SyncTeXRecordBackward =
  input_bw :: string
  line_bw :: nat
  column_bw :: nat

record BestRecord =
  \<comment> \<open>the local object \<open>record\<close>\<close>
  input_r :: string
  line_r :: nat
  distance_r :: real

datatype Scan =
    Return SyncTeXRecordBackward  \<comment> \<open>the \<open>return\<close> of line 419, out of the three loops\<close>
  | Throw error
  | Continue BestRecord           \<comment> \<open>the loop goes on, with \<open>record\<close> as it is now\<close>

definition insideBox :: "real \<Rightarrow> real \<Rightarrow> Rect \<Rightarrow> bool" where
  \<comment> \<open>the test of line 418\<close>
  "insideBox x0 y0 box =
     (cBottom box \<le> y0 \<and> y0 \<le> cTop box \<and> cLeft box \<le> x0 \<and> x0 \<le> cRight box)"

definition distanceTo :: "real \<Rightarrow> real \<Rightarrow> Rect \<Rightarrow> real" where
  \<comment> \<open>\<open>dist\<close> of line 421\<close>
  "distanceTo x0 y0 box =
     max (cBottom box - y0) (max (y0 - cTop box) (max (cLeft box - x0) (x0 - cRight box)))"

fun scanPages ::
  "nat \<Rightarrow> real \<Rightarrow> real \<Rightarrow> string \<Rightarrow> nat \<Rightarrow> PageBlocks \<Rightarrow> nat list \<Rightarrow> BestRecord \<Rightarrow> Scan" where
  "scanPages pg x0 y0 fileName lineNum pageBlocks [] r = Continue r"
| "scanPages pg x0 y0 fileName lineNum pageBlocks (pageNum # pageNums) r =
     (if pg = pageNum then
        (case map_of pageBlocks pageNum of
           None \<Rightarrow> Throw TypeError
         | Some bs \<Rightarrow>
             (let box = getCoveringRectangle bs
              in if insideBox x0 y0 box then
                   Return \<lparr>input_bw = fileName, line_bw = lineNum, column_bw = 0\<rparr>
                 else
                   (let dist = distanceTo x0 y0 box
                    in scanPages pg x0 y0 fileName lineNum pageBlocks pageNums
                         (if dist < distance_r r
                          then r\<lparr>input_r := fileName, line_r := lineNum, distance_r := dist\<rparr>
                          else r))))
      else scanPages pg x0 y0 fileName lineNum pageBlocks pageNums r)"

fun scanLines ::
  "nat \<Rightarrow> real \<Rightarrow> real \<Rightarrow> string \<Rightarrow> LinePageBlocks \<Rightarrow> nat list \<Rightarrow> BestRecord \<Rightarrow> Scan" where
  "scanLines pg x0 y0 fileName linePageBlocks [] r = Continue r"
| "scanLines pg x0 y0 fileName linePageBlocks (lineNum # lineNums) r =
     (case map_of linePageBlocks lineNum of
        None \<Rightarrow> Throw TypeError
      | Some pageBlocks \<Rightarrow>
          (case scanPages pg x0 y0 fileName lineNum pageBlocks
                  (ownKeys indexOfNumber pageBlocks) r of
             Continue r1 \<Rightarrow> scanLines pg x0 y0 fileName linePageBlocks lineNums r1
           | stop \<Rightarrow> stop))"

fun scanFiles ::
  "nat \<Rightarrow> real \<Rightarrow> real \<Rightarrow> BlockNumberLine \<Rightarrow> string list \<Rightarrow> BestRecord \<Rightarrow> Scan" where
  "scanFiles pg x0 y0 bnl [] r = Continue r"
| "scanFiles pg x0 y0 bnl (fileName # fileNames) r =
     (case map_of bnl fileName of
        None \<Rightarrow> Throw TypeError
      | Some linePageBlocks \<Rightarrow>
          (let lineNums = ownKeys indexOfNumber linePageBlocks
           in if length lineNums = 0 then scanFiles pg x0 y0 bnl fileNames r
              else
                (case scanLines pg x0 y0 fileName linePageBlocks lineNums r of
                   Continue r1 \<Rightarrow> scanFiles pg x0 y0 bnl fileNames r1
                 | stop \<Rightarrow> stop)))"

definition syncTexJsBackward :: "nat \<Rightarrow> real \<Rightarrow> real \<Rightarrow> PdfSyncObject \<Rightarrow> error + SyncTeXRecordBackward" where
  "syncTexJsBackward pg x1 y1 pdfSyncObject =
     (let x0 = x1 - offset_x (offset pdfSyncObject);
          y0 = y1 - offset_y (offset pdfSyncObject);
          fileNames = ownKeys indexOfString (blockNumberLine pdfSyncObject)
      in if length fileNames = 0 then
           Inl (SyncTexJsError ''no entry of tex file found in the synctex file.'')
         else
           (case scanFiles pg x0 y0 (blockNumberLine pdfSyncObject) fileNames
                   \<lparr>input_r = '''', line_r = 0, distance_r = 20000000000000000\<rparr> of
              Return res \<Rightarrow> Inr res
            | Throw e \<Rightarrow> Inl e
            | Continue r \<Rightarrow>
                if input_r r = '''' then Inl (SyncTexJsError ''cannot find any line to jump to.'')
                else Inr \<lparr>input_bw = input_r r, line_bw = line_r r, column_bw = 0\<rparr>))"

section \<open>Regular expressions of the parser (lines 131-139)\<close>

text \<open>
  \<open>line.match(pattern)\<close> searches the line for the leftmost match of a pattern without
  flags and returns the captured groups, or \<open>null\<close>. The patterns of the parser use
  literal characters, the classes \<open>[0-9]\<close> and \<open>.\<close>, \<open>+\<close> on a class, \<open>?\<close>, one
  alternation, capturing groups and \<open>$\<close>. \<open>matchRe\<close> is a backtracking matcher for this
  fragment in continuation-passing style: quantifiers are greedy, an alternation tries its
  left side first, and a group that takes no part in the match stays undefined.
  A string is a list of 8-bit characters.
\<close>

datatype re =
    Eps
  | Chr char
  | Lit string
  | Digit          \<comment> \<open>\<open>[0-9]\<close>\<close>
  | Dot            \<comment> \<open>\<open>.\<close>: any character but a line terminator\<close>
  | PlusDigit      \<comment> \<open>\<open>[0-9]+\<close>\<close>
  | PlusDot        \<comment> \<open>\<open>.+\<close>\<close>
  | Seq re re
  | Alt re re
  | Opt re         \<comment> \<open>\<open>r?\<close>\<close>
  | Group nat re   \<comment> \<open>a capturing group and its number\<close>
  | Eol            \<comment> \<open>\<open>$\<close>\<close>

type_synonym captures = "nat \<Rightarrow> string option"

definition isLineTerminator :: "char \<Rightarrow> bool" where
  \<comment> \<open>line feed and carriage return\<close>
  "isLineTerminator c = (c = CHR 0x0A \<or> c = CHR 0x0D)"

fun plusClass ::
  "(char \<Rightarrow> bool) \<Rightarrow> string \<Rightarrow> captures \<Rightarrow> (string \<Rightarrow> captures \<Rightarrow> captures option) \<Rightarrow> captures option" where
  "plusClass p [] cs k = None"
| "plusClass p (c # s) cs k =
     (if p c then
        (case plusClass p s cs k of
           Some r \<Rightarrow> Some r
         | None \<Rightarrow> k s cs)
      else None)"

fun matchRe ::
  "re \<Rightarrow> string \<Rightarrow> captures \<Rightarrow> (string \<Rightarrow> captures \<Rightarrow> captures option) \<Rightarrow> captures option" where
  "matchRe Eps s cs k = k s cs"
| "matchRe (Chr c) s cs k =
     (case s of [] \<Rightarrow> None | a # s' \<Rightarrow> if a = c then k s' cs else None)"
| "matchRe (Lit l) s cs k =
     (if take (length l) s = l then k (drop (length l) s) cs else None)"
| "matchRe Digit s cs k =
     (case s of [] \<Rightarrow> None | a # s' \<Rightarrow> if isDigit a then k s' cs else None)"
| "matchRe Dot s cs k =
     (case s of [] \<Rightarrow> None | a # s' \<Rightarrow> if isLineTerminator a then None else k s' cs)"
| "matchRe PlusDigit s cs k = plusClass isDigit s cs k"
| "matchRe PlusDot s cs k = plusClass (\<lambda>c. \<not> isLineTerminator c) s cs k"
| "matchRe (Seq a b) s cs k = matchRe a s cs (\<lambda>s' cs'. matchRe b s' cs' k)"
| "matchRe (Alt a b) s cs k =
     (case matchRe a s cs k of Some r \<Rightarrow> Some r | None \<Rightarrow> matchRe b s cs k)"
| "matchRe (Opt a) s cs k =
     (case matchRe a s cs k of Some r \<Rightarrow> Some r | None \<Rightarrow> k s cs)"
| "matchRe (Group n a) s cs k =
     matchRe a s cs (\<lambda>s' cs'. k s' (cs'(n \<mapsto> take (length s - length s') s)))"
| "matchRe Eol s cs k = (if s = [] then k s cs else None)"

fun search :: "re \<Rightarrow> string \<Rightarrow> captures option" where
  \<comment> \<open>\<open>s.match(r)\<close>: the match that starts leftmost\<close>
  "search r [] = matchRe r [] (\<lambda>_. None) (\<lambda>_ cs. Some cs)"
| "search r (c # s) =
     (case matchRe r (c # s) (\<lambda>_. None) (\<lambda>_ cs. Some cs) of
        Some cs \<Rightarrow> Some cs
      | None \<Rightarrow> search r s)"

primrec seqs :: "re list \<Rightarrow> re" where
  "seqs [] = Eps"
| "seqs (r # rs) = Seq r (seqs rs)"

definition signedDigits :: re where
  \<comment> \<open>\<open>-?[0-9]+\<close>\<close>
  "signedDigits = Seq (Opt (Chr CHR ''-'')) PlusDigit"

definition inputPattern :: re where
  \<comment> \<open>\<open>/Input:([0-9]+):(.+)/\<close>\<close>
  "inputPattern = seqs [Lit ''Input:'', Group 1 PlusDigit, Chr CHR '':'', Group 2 PlusDot]"

definition offsetPattern :: re where
  \<comment> \<open>\<open>/(X|Y) Offset:([0-9]+)/\<close>\<close>
  "offsetPattern =
     seqs [Group 1 (Alt (Chr CHR ''X'') (Chr CHR ''Y'')), Lit '' Offset:'', Group 2 PlusDigit]"

definition openPagePattern :: re where
  \<comment> \<open>\<open>/\{([0-9]+)$/\<close>\<close>
  "openPagePattern = seqs [Chr CHR ''{'', Group 1 PlusDigit, Eol]"

definition closePagePattern :: re where
  \<comment> \<open>\<open>/\}([0-9]+)$/\<close>\<close>
  "closePagePattern = seqs [Chr CHR ''}'', Group 1 PlusDigit, Eol]"

definition blockPattern :: "char \<Rightarrow> re" where
  \<comment> \<open>\<open>/\[([0-9]+),([0-9]+):(-?[0-9]+),(-?[0-9]+):(-?[0-9]+),(-?[0-9]+),(-?[0-9]+)/\<close>,
      and the same with \<open>\(\<close> for a horizontal block\<close>
  "blockPattern opening =
     seqs [Chr opening, Group 1 PlusDigit, Chr CHR '','', Group 2 PlusDigit, Chr CHR '':'',
           Group 3 signedDigits, Chr CHR '','', Group 4 signedDigits, Chr CHR '':'',
           Group 5 signedDigits, Chr CHR '','', Group 6 signedDigits, Chr CHR '','',
           Group 7 signedDigits]"

definition verticalBlockPattern :: re where
  "verticalBlockPattern = blockPattern CHR ''[''"

definition closeverticalBlockPattern :: re where
  \<comment> \<open>\<open>/\]$/\<close>\<close>
  "closeverticalBlockPattern = seqs [Chr CHR '']'', Eol]"

definition horizontalBlockPattern :: re where
  "horizontalBlockPattern = blockPattern CHR ''(''"

definition closehorizontalBlockPattern :: re where
  \<comment> \<open>\<open>/\)$/\<close>\<close>
  "closehorizontalBlockPattern = seqs [Chr CHR '')'', Eol]"

definition elementBlockPattern :: re where
  \<comment> \<open>\<open>/(.)([0-9]+),([0-9]+):-?([0-9]+),-?([0-9]+)(:?-?([0-9]+))?/\<close>\<close>
  "elementBlockPattern =
     seqs [Group 1 Dot, Group 2 PlusDigit, Chr CHR '','', Group 3 PlusDigit, Chr CHR '':'',
           Opt (Chr CHR ''-''), Group 4 PlusDigit, Chr CHR '','',
           Opt (Chr CHR ''-''), Group 5 PlusDigit,
           Opt (Group 6 (seqs [Opt (Chr CHR '':''), Opt (Chr CHR ''-''), Group 7 PlusDigit]))]"

section \<open>The parser (lines 100-311)\<close>

text \<open>
  The state of the loop over the lines: the object under construction, whose fields stand
  for the locals \<open>files\<close>, \<open>pages\<close>, \<open>blockNumberLine\<close>, \<open>hBlocks\<close> and \<open>numberPages\<close>
  that line 305-309 copy into it, together with \<open>currentPage\<close> and \<open>currentElement\<close>.
  \<open>currentElement: Block | Page | undefined\<close> is a \<open>Parent option\<close>.
\<close>

record ParseState = PdfSyncObject +
  currentPage :: "Page option"
  currentElement :: "Parent option"

definition unit :: real where
  "unit = 65781.76"

definition numberOf :: "string \<Rightarrow> int" where
  \<comment> \<open>\<open>Number(s)\<close> and \<open>parseInt(s)\<close> for \<open>s\<close> of the form \<open>-?[0-9]+\<close>\<close>
  "numberOf s =
     (case s of
        [] \<Rightarrow> 0
      | c # ds \<Rightarrow> if c = CHR ''-'' then - int (parseInt ds) else int (parseInt s))"

definition digitChar :: "nat \<Rightarrow> char" where
  "digitChar d = ''0123456789'' ! d"

function toString :: "nat \<Rightarrow> string" where
  \<comment> \<open>the property key of a number: its decimal digits\<close>
  "toString n =
     (if n < 10 then [digitChar n] else toString (n div 10) @ [digitChar (n mod 10)])"
  by pat_completeness auto
termination
  by (relation "measure id") auto

definition group :: "captures \<Rightarrow> nat \<Rightarrow> string" where
  \<comment> \<open>\<open>match[n]\<close> of a group that took part in the match\<close>
  "group cs n = (case cs n of Some s \<Rightarrow> s | None \<Rightarrow> [])"

definition getOrEmpty :: "('k, ('a \<times> 'b) list) obj \<Rightarrow> 'k \<Rightarrow> ('a \<times> 'b) list" where
  \<comment> \<open>\<open>if (o[k] === undefined) { o[k] = {} }\<close>, then \<open>o[k]\<close>\<close>
  "getOrEmpty ob k = (case map_of ob k of None \<Rightarrow> [] | Some v \<Rightarrow> v)"

definition recordElement :: "BlockNumberLine \<Rightarrow> string \<Rightarrow> Block \<Rightarrow> BlockNumberLine" where
  \<comment> \<open>lines 289-298: the three objects are created where they are missing, each as the
      last property of the object that holds it, and the element goes to the end of the
      list of its page\<close>
  "recordElement bnl p elem =
     (let linePageBlocks = getOrEmpty bnl p;
          pageBlocks = getOrEmpty linePageBlocks (line elem);
          bs = (case map_of pageBlocks (page elem) of None \<Rightarrow> [] | Some v \<Rightarrow> v)
      in AList.update p
           (AList.update (line elem)
              (AList.update (page elem) (bs @ [elem]) pageBlocks) linePageBlocks) bnl)"

definition makeBlock :: "string \<Rightarrow> bool \<Rightarrow> captures \<Rightarrow> ParseState \<Rightarrow> Page \<Rightarrow> Parent \<Rightarrow> Block" where
  \<comment> \<open>the object of line 198 (\<open>vertical\<close>, with a \<open>depth\<close>) and of line 235 (\<open>horizontal\<close>)\<close>
  "makeBlock kind vertical cs st cp ce =
     \<lparr>type_b = kind, parent = ce,
      fileNumber = parseInt (group cs 1),
      file_b = map_of (files st) (group cs 1),
      line = parseInt (group cs 2),
      left = real_of_int (numberOf (group cs 3)) / unit,
      bottom = real_of_int (numberOf (group cs 4)) / unit,
      width = Some (real_of_int (numberOf (group cs 5)) / unit),
      height = real_of_int (numberOf (group cs 6)) / unit,
      depth = (if vertical then Some (numberOf (group cs 7)) else None),
      blocks = Some [], elements = Some [],
      page = page_p cp\<rparr>"

definition newBlock :: "string \<Rightarrow> bool \<Rightarrow> captures \<Rightarrow> ParseState \<Rightarrow> error + ParseState" where
  \<comment> \<open>lines 192-215 for \<open>vertical\<close>, lines 229-252 for \<open>horizontal\<close>\<close>
  "newBlock kind vertical cs st =
     (case (currentPage st, currentElement st) of
        (Some cp, Some ce) \<Rightarrow>
          (let block = makeBlock kind vertical cs st cp ce;
               a = length (store st)
           in Inr (st\<lparr>store := store st @ [block],
                       hBlocks := (if vertical then hBlocks st else hBlocks st @ [a]),
                       currentElement := Some (ParentBlock a)\<rparr>))
      | _ \<Rightarrow>
          Inl (SyncTexJsError
                 (if vertical
                  then ''Error: parse error at line ${i}. A new V block is not allowed here.''
                  else ''Error: parse error at line ${i}. A new H block is not allowed here.'')))"

definition closeBlock :: "ParseState \<Rightarrow> ParseState" where
  \<comment> \<open>lines 220-223 and 257-260\<close>
  "closeBlock st =
     (case currentElement st of
        Some (ParentBlock a) \<Rightarrow>
          (case parent (store st ! a) of
             ParentBlock pa \<Rightarrow>
               (case blocks (store st ! pa) of
                  Some children \<Rightarrow>
                    st\<lparr>store := (store st)[pa := (store st ! pa)\<lparr>blocks := Some (children @ [a])\<rparr>],
                       currentElement := Some (ParentBlock pa)\<rparr>
                | None \<Rightarrow> st)
           | ParentPage _ \<Rightarrow> st)
      | _ \<Rightarrow> st)"

definition makeElement :: "captures \<Rightarrow> ParseState \<Rightarrow> Page \<Rightarrow> nat \<Rightarrow> Block" where
  \<comment> \<open>the object of line 277, for the open block at address \<open>a\<close>\<close>
  "makeElement cs st cp a =
     \<lparr>type_b = group cs 1, parent = ParentBlock a,
      fileNumber = parseInt (group cs 2),
      file_b = map_of (files st) (toString (parseInt (group cs 2))),
      line = parseInt (group cs 3),
      left = real (parseInt (group cs 4)) / unit,
      bottom = real (parseInt (group cs 5)) / unit,
      width = (case cs 7 of
                 None \<Rightarrow> None
               | Some w \<Rightarrow> if w = [] then None else Some (real (parseInt w) / unit)),
      height = height (store st ! a),
      depth = None, blocks = None, elements = None,
      page = page_p cp\<rparr>"

definition pushElement :: "nat \<Rightarrow> nat \<Rightarrow> Block list \<Rightarrow> Block list" where
  \<comment> \<open>lines 299-301: \<open>currentElement.elements.push(elem)\<close>, for the block at address \<open>a\<close> and
      the element at address \<open>e\<close>\<close>
  "pushElement a e sto =
     (case elements (sto ! a) of
        Some es \<Rightarrow> sto[a := (sto ! a)\<lparr>elements := Some (es @ [e])\<rparr>]
      | None \<Rightarrow> sto)"

definition newElement :: "captures \<Rightarrow> ParseState \<Rightarrow> error + ParseState" where
  \<comment> \<open>lines 267-302\<close>
  "newElement cs st =
     (case (currentPage st, currentElement st) of
        (Some cp, Some (ParentBlock a)) \<Rightarrow>
          (let elem = makeElement cs st cp a
           in case file_b elem of
                None \<Rightarrow> Inl TypeError
              | Some f \<Rightarrow>
                  Inr (st\<lparr>store := pushElement a (length (store st)) (store st @ [elem]),
                          blockNumberLine :=
                            recordElement (blockNumberLine st) (path f) elem\<rparr>))
      | _ \<Rightarrow>
          Inl (SyncTexJsError
                 ''Error: parse error at line ${i}. A new element is not allowed here.''))"

definition parseLine :: "ParseState \<Rightarrow> string \<Rightarrow> error + ParseState" where
  \<comment> \<open>the body of the loop of line 141: the first pattern that matches decides\<close>
  "parseLine st ln1 =
     (case search inputPattern ln1 of
        Some cs \<Rightarrow>
          Inr (st\<lparr>files := AList.update (group cs 1) \<lparr>path = group cs 2\<rparr> (files st)\<rparr>)
      | None \<Rightarrow>
     (case search offsetPattern ln1 of
        Some cs \<Rightarrow>
          (if group cs 1 = ''X'' \<or> group cs 1 = ''x'' then
             Inr (st\<lparr>offset := (offset st)\<lparr>offset_x := real (parseInt (group cs 2)) / unit\<rparr>\<rparr>)
           else if group cs 1 = ''Y'' \<or> group cs 1 = ''y'' then
             Inr (st\<lparr>offset := (offset st)\<lparr>offset_y := real (parseInt (group cs 2)) / unit\<rparr>\<rparr>)
           else Inl (SyncTexJsError ''never occur.''))
      | None \<Rightarrow>
     (case search openPagePattern ln1 of
        Some cs \<Rightarrow>
          (let cp = \<lparr>page_p = parseInt (group cs 1), blocks_p = [], type_p = ''page''\<rparr>
           in Inr (st\<lparr>currentPage := Some cp,
                       numberPages := (if page_p cp > numberPages st then page_p cp
                                       else numberPages st),
                       currentElement := Some (ParentPage cp)\<rparr>))
      | None \<Rightarrow>
     (case (search closePagePattern ln1, currentPage st) of
        (Some cs, Some cp) \<Rightarrow>
          Inr (st\<lparr>pages := AList.update (group cs 1) cp (pages st), currentPage := None\<rparr>)
      | _ \<Rightarrow>
     (case search verticalBlockPattern ln1 of
        Some cs \<Rightarrow> newBlock ''vertical'' True cs st
      | None \<Rightarrow>
     (case search closeverticalBlockPattern ln1 of
        Some cs \<Rightarrow> Inr (closeBlock st)
      | None \<Rightarrow>
     (case search horizontalBlockPattern ln1 of
        Some cs \<Rightarrow> newBlock ''horizontal'' False cs st
      | None \<Rightarrow>
     (case search closehorizontalBlockPattern ln1 of
        Some cs \<Rightarrow> Inr (closeBlock st)
      | None \<Rightarrow>
     (case search elementBlockPattern ln1 of
        Some cs \<Rightarrow> newElement cs st
      | None \<Rightarrow> Inr st)))))))))"

fun parseLines :: "ParseState \<Rightarrow> string list \<Rightarrow> error + ParseState" where
  "parseLines st [] = Inr st"
| "parseLines st (l # ls) =
     (case parseLine st l of Inl e \<Rightarrow> Inl e | Inr st1 \<Rightarrow> parseLines st1 ls)"

fun split :: "char \<Rightarrow> string \<Rightarrow> string list" where
  \<comment> \<open>\<open>s.split(c)\<close>\<close>
  "split c [] = [[]]"
| "split c (a # s) =
     (if a = c then [] # split c s
      else (case split c s of [] \<Rightarrow> [[a]] | w # ws \<Rightarrow> (a # w) # ws))"

fun replaceFirst :: "string \<Rightarrow> string \<Rightarrow> string" where
  \<comment> \<open>\<open>s.replace(pat, '')\<close> for a string \<open>pat\<close>: the first occurrence is removed\<close>
  "replaceFirst pat [] = []"
| "replaceFirst pat (a # s) =
     (if pat \<noteq> [] \<and> take (length pat) (a # s) = pat then drop (length pat) (a # s)
      else a # replaceFirst pat s)"

definition initialState :: ParseState where
  "initialState =
     \<lparr>offset = \<lparr>offset_x = 0, offset_y = 0\<rparr>, version = [], files = [], pages = [],
      blockNumberLine = [], hBlocks = [], numberPages = 0, store = [],
      currentPage = None, currentElement = None\<rparr>"

definition parseSyncTex :: "string \<Rightarrow> error + PdfSyncObject" where
  "parseSyncTex pdfsyncBody =
     (let lineArray = split CHR 0x0A pdfsyncBody;
          st = initialState\<lparr>version := replaceFirst ''SyncTeX Version:'' (hd lineArray)\<rparr>
      in case parseLines st (tl lineArray) of
           Inl e \<Rightarrow> Inl e
         | Inr st1 \<Rightarrow>
             Inr \<lparr>offset = offset st1, version = version st1, files = files st1,
                  pages = pages st1, blockNumberLine = blockNumberLine st1,
                  hBlocks = hBlocks st1, numberPages = numberPages st1, store = store st1\<rparr>)"

text \<open>
  The two queries as the source has them, lines 334-335 and 389-390: they parse the file
  first, and a parse error is the error of the query. The text of the SyncTeX file
  stands for \<open>pdfFile\<close>; finding the file next to the PDF and unzipping it
  (\<open>parseSyncTexForPdf\<close>) are outside the model.
\<close>

definition forwardOnFile :: "nat \<Rightarrow> string \<Rightarrow> string \<Rightarrow> error + SyncTeXRecordForward" where
  "forwardOnFile lineNo filePath pdfsyncBody =
     (case parseSyncTex pdfsyncBody of
        Inl e \<Rightarrow> Inl e
      | Inr pdfSyncObject \<Rightarrow> syncTexJsForward lineNo filePath pdfSyncObject)"

definition backwardOnFile :: "nat \<Rightarrow> real \<Rightarrow> real \<Rightarrow> string \<Rightarrow> error + SyncTeXRecordBackward" where
  "backwardOnFile pg x1 y1 pdfsyncBody =
     (case parseSyncTex pdfsyncBody of
        Inl e \<Rightarrow> Inl e
      | Inr pdfSyncObject \<Rightarrow> syncTexJsBackward pg x1 y1 pdfSyncObject)"

section \<open>Reference definitions and example data\<close>

definition rights :: "Block list \<Rightarrow> real list" where
  \<comment> \<open>\<open>block.left + block.width\<close> of the blocks whose width is defined\<close>
  "rights bs = map (\<lambda>b. left b + the (width b)) (filter (\<lambda>b. width b \<noteq> None) bs)"

definition element :: "nat \<Rightarrow> string \<Rightarrow> nat \<Rightarrow> nat \<Rightarrow> real \<Rightarrow> real \<Rightarrow> real option \<Rightarrow> real \<Rightarrow> Block" where
  \<comment> \<open>an element as line 277 builds it: of type \<open>x\<close>, for the input of number 1, inside
      the block at address \<open>a\<close>\<close>
  "element a p lineNumber pg l b w h =
     \<lparr>type_b = ''x'', parent = ParentBlock a, fileNumber = 1, file_b = Some \<lparr>path = p\<rparr>,
      line = lineNumber, left = l, bottom = b, width = w, height = h, depth = None,
      blocks = None, elements = None, page = pg\<rparr>"

text \<open>
  What the backward scan can use: a bucket on the requested page that passes the test of
  line 418 or whose distance is below the constant \<open>2e16\<close> that \<open>record.distance\<close> starts
  from. \<open>onPage\<close> says that a file and a line have a bucket on the page.
\<close>

definition usablePages :: "nat \<Rightarrow> real \<Rightarrow> real \<Rightarrow> PageBlocks \<Rightarrow> bool" where
  "usablePages pg x0 y0 pageBlocks =
     (case map_of pageBlocks pg of
        None \<Rightarrow> False
      | Some bs \<Rightarrow>
          insideBox x0 y0 (getCoveringRectangle bs)
          \<or> distanceTo x0 y0 (getCoveringRectangle bs) < 20000000000000000)"

definition usableLines :: "nat \<Rightarrow> real \<Rightarrow> real \<Rightarrow> LinePageBlocks \<Rightarrow> bool" where
  "usableLines pg x0 y0 linePageBlocks =
     (\<exists>lineNum \<in> fst ` set linePageBlocks. \<exists>pageBlocks.
        map_of linePageBlocks lineNum = Some pageBlocks \<and> usablePages pg x0 y0 pageBlocks)"

definition usable :: "nat \<Rightarrow> real \<Rightarrow> real \<Rightarrow> BlockNumberLine \<Rightarrow> bool" where
  "usable pg x0 y0 bnl =
     (\<exists>fileName \<in> fst ` set bnl. \<exists>linePageBlocks.
        map_of bnl fileName = Some linePageBlocks \<and> usableLines pg x0 y0 linePageBlocks)"

definition onPage :: "BlockNumberLine \<Rightarrow> nat \<Rightarrow> string \<Rightarrow> nat \<Rightarrow> bool" where
  "onPage bnl pg fileName lineNum =
     (\<exists>linePageBlocks pageBlocks bs.
        map_of bnl fileName = Some linePageBlocks
        \<and> map_of linePageBlocks lineNum = Some pageBlocks
        \<and> map_of pageBlocks pg = Some bs)"

definition goodRecord :: "BlockNumberLine \<Rightarrow> nat \<Rightarrow> BestRecord \<Rightarrow> bool" where
  \<comment> \<open>the invariant of \<open>record\<close> in the backward scan: it is as it started, or it names a
      file and a line that have a bucket on the page, at a distance below \<open>2e16\<close>\<close>
  "goodRecord bnl pg r =
     ((input_r r = [] \<and> distance_r r = 20000000000000000)
      \<or> (input_r r \<noteq> [] \<and> distance_r r < 20000000000000000
          \<and> onPage bnl pg (input_r r) (line_r r)))"

definition isLookupError :: "error + 'a \<Rightarrow> bool" where
  \<comment> \<open>the operation failed with an error that the locator itself raises\<close>
  "isLookupError res = (case res of Inl (SyncTexJsError _) \<Rightarrow> True | _ \<Rightarrow> False)"

definition withIndex :: "BlockNumberLine \<Rightarrow> PdfSyncObject" where
  \<comment> \<open>a parsed object with the given index and a zero offset; the queries read nothing else\<close>
  "withIndex bnl =
     \<lparr>offset = \<lparr>offset_x = 0, offset_y = 0\<rparr>, version = ''1'', files = [], pages = [],
      blockNumberLine = bnl, hBlocks = [], numberPages = 1, store = []\<rparr>"

definition joinLines :: "string list \<Rightarrow> string" where
  \<comment> \<open>the lines of a file, with a line feed between two lines\<close>
  "joinLines ls = (case ls of [] \<Rightarrow> [] | l # r \<Rightarrow> l @ concat (map (\<lambda>s. CHR 0x0A # s) r))"

definition parsedIndex :: "string \<Rightarrow> (Offset \<times> BlockNumberLine) option" where
  \<comment> \<open>what the two queries read of a parsed file: the offset and the index\<close>
  "parsedIndex t =
     (case parseSyncTex t of Inl e \<Rightarrow> None | Inr m \<Rightarrow> Some (offset m, blockNumberLine m))"

text \<open>
  Example files. Lengths are written in the unit of the file: \<open>1644544 / 65781.76 = 25\<close>,
  \<open>3289088\<close> is 50, \<open>6578176\<close> is 100, \<open>13156352\<close> is 200 and \<open>19734528\<close> is 300.
\<close>

definition twoLinesFile :: string where
  \<comment> \<open>one page with a horizontal block for line 12 of the input and, inside it, one for
      line 20, each with one element\<close>
  "twoLinesFile =
     joinLines [''SyncTeX Version:1'', ''Input:1:/doc/main.tex'', ''{1'',
       ''(1,12:6578176,13156352:3289088,1644544,0'', ''x1,12:6578176,13156352:3289088'',
       ''(1,20:6578176,19734528:3289088,1644544,0'', ''x1,20:6578176,19734528'', '')'',
       '')'', ''}1'']"

definition twoLines :: LinePageBlocks where
  \<comment> \<open>the lines that \<open>twoLinesFile\<close> records for its input\<close>
  "twoLines =
     [(12, [(1, [element 0 ''/doc/main.tex'' 12 1 100 200 (Some 50) 25])]),
      (20, [(1, [element 2 ''/doc/main.tex'' 20 1 100 300 None 25])])]"

definition twoLinesIndex :: BlockNumberLine where
  "twoLinesIndex = [(''/doc/main.tex'', twoLines)]"

definition oneBucket :: BlockNumberLine where
  \<comment> \<open>one bucket on page 1, whose covering rectangle is left 0, right 10, bottom 10, top 0\<close>
  "oneBucket = [(''/doc/main.tex'', [(7, [(1, [element 0 ''/doc/main.tex'' 7 1 0 10 (Some 10) 10])])])]"

definition nestedBoxesFile :: string where
  \<comment> \<open>one page; line 7 has an element in a box from 0 to 100 in height, line 8 an element
      in a box from 25 to 50 inside it; both boxes go from 0 to 50 in width\<close>
  "nestedBoxesFile =
     joinLines [''SyncTeX Version:1'', ''Input:1:/doc/main.tex'', ''{1'',
       ''(1,7:0,6578176:3289088,6578176,0'', ''x1,7:0,6578176:3289088'', '')'',
       ''(1,8:0,3289088:3289088,1644544,0'', ''x1,8:0,3289088:3289088'', '')'', ''}1'']"

definition nestedBoxes :: BlockNumberLine where
  \<comment> \<open>the index of \<open>nestedBoxesFile\<close>\<close>
  "nestedBoxes =
     [(''/doc/main.tex'',
       [(7, [(1, [element 0 ''/doc/main.tex'' 7 1 0 100 (Some 50) 100])]),
        (8, [(1, [element 2 ''/doc/main.tex'' 8 1 0 50 (Some 50) 25])])])]"

definition negativeHeightFile :: string where
  \<comment> \<open>a horizontal block of height \<open>-1000\<close> with one element\<close>
  "negativeHeightFile =
     joinLines [''SyncTeX Version:1'', ''Input:1:/doc/main.tex'', ''{1'',
       ''(1,1:0,0:0,-65781760,0'', ''x1,1:0,0:1644544'', '')'', ''}1'']"

definition farLeftFile :: string where
  \<comment> \<open>an element whose \<open>left\<close> is \<open>1973452800000000000000 / 65781.76 = 3e16\<close>\<close>
  "farLeftFile =
     joinLines [''SyncTeX Version:1'', ''Input:1:/doc/main.tex'', ''{1'',
       ''(1,1:0,0:0,0,0'', ''x1,1:1973452800000000000000,0'', '')'', ''}1'']"

definition pagesOutOfOrder :: string where
  \<comment> \<open>a file whose page 2 comes before its page 1; line 12 of the input has an element on
      both (1644544 / 65781.76 = 25)\<close>
  "pagesOutOfOrder =
     joinLines [''SyncTeX Version:1'', ''Input:1:/doc/main.tex'',
       ''{2'', ''(1,12:0,1644544:1644544,1644544,0'', ''x1,12:0,1644544'', '')'', ''}2'',
       ''{1'', ''(1,12:0,3289088:1644544,1644544,0'', ''x1,12:0,3289088'', '')'', ''}1'']"

definition closesBlock :: "ParseState \<Rightarrow> string \<Rightarrow> bool" where
  \<comment> \<open>the loop of line 141 takes the line for a block close marker: none of the patterns
      it tries before matches (the page close pattern may match while no page is open), and
      the line ends in \<open>]\<close>, or it does not open a horizontal block and ends in \<open>)\<close>\<close>
  "closesBlock st l =
     (search inputPattern l = None \<and> search offsetPattern l = None
      \<and> search openPagePattern l = None
      \<and> (search closePagePattern l = None \<or> currentPage st = None)
      \<and> search verticalBlockPattern l = None
      \<and> (search closeverticalBlockPattern l \<noteq> None
          \<or> (search horizontalBlockPattern l = None
              \<and> search closehorizontalBlockPattern l \<noteq> None)))"

definition outOfOrder :: LinePageBlocks where
  \<comment> \<open>line 12 as \<open>pagesOutOfOrder\<close> records it: the bucket of page 2 first, then that of
      page 1\<close>
  "outOfOrder =
     [(12, [(2, [element 0 ''/doc/main.tex'' 12 2 0 25 None 25]),
            (1, [element 2 ''/doc/main.tex'' 12 1 0 50 None 25])])]"

text \<open>
  What every index that the parser builds satisfies: at each of its three levels the keys
  are pairwise different and no object is empty, no file name is the empty string, no
  bucket is empty, and each element of a bucket carries the file, the line and the page
  it is filed under, with \<open>left\<close>, \<open>bottom\<close> and a defined \<open>width\<close> that are not negative.
\<close>

definition wfElement :: "string \<Rightarrow> nat \<Rightarrow> nat \<Rightarrow> Block \<Rightarrow> bool" where
  "wfElement f l p b =
     (file_b b = Some \<lparr>path = f\<rparr> \<and> line b = l \<and> page b = p \<and> 0 \<le> left b \<and> 0 \<le> bottom b
      \<and> (case width b of None \<Rightarrow> True | Some w \<Rightarrow> 0 \<le> w))"

definition wfPageBlocks :: "string \<Rightarrow> nat \<Rightarrow> PageBlocks \<Rightarrow> bool" where
  "wfPageBlocks f l pb =
     (pb \<noteq> [] \<and> distinct (map fst pb)
      \<and> (\<forall>p bs. map_of pb p = Some bs \<longrightarrow> bs \<noteq> [] \<and> (\<forall>b \<in> set bs. wfElement f l p b)))"

definition wfLinePageBlocks :: "string \<Rightarrow> LinePageBlocks \<Rightarrow> bool" where
  "wfLinePageBlocks f lpb =
     (lpb \<noteq> [] \<and> distinct (map fst lpb)
      \<and> (\<forall>l pb. map_of lpb l = Some pb \<longrightarrow> wfPageBlocks f l pb))"

definition wfIndex :: "BlockNumberLine \<Rightarrow> bool" where
  "wfIndex bnl =
     (distinct (map fst bnl)
      \<and> (\<forall>f lpb. map_of bnl f = Some lpb \<longrightarrow> f \<noteq> [] \<and> wfLinePageBlocks f lpb))"

definition wfState :: "ParseState \<Rightarrow> bool" where
  "wfState st =
     (wfIndex (blockNumberLine st) \<and> (\<forall>k f. map_of (files st) k = Some f \<longrightarrow> path f \<noteq> []))"

text \<open>
  The page bucket of a line that forward reads. \<open>lowestPage\<close> is the smallest page
  number of the line that is below \<open>2^32 - 1\<close> or, when the line has no such page number,
  the page number that was recorded first; \<open>lowestPageBucket\<close> is its bucket.
  \<open>keepLowestPage\<close> keeps that bucket alone, and \<open>pruneIndex\<close> does so for every line of
  every file of an index.
\<close>

definition lowestPage :: "PageBlocks \<Rightarrow> nat option" where
  "lowestPage pb =
     (let small = filter (\<lambda>p. p < 4294967295) (map fst pb)
      in if small \<noteq> [] then Some (Min (set small))
         else (case pb of [] \<Rightarrow> None | (p, _) # _ \<Rightarrow> Some p))"

definition lowestPageBucket :: "PageBlocks \<Rightarrow> Block list option" where
  "lowestPageBucket pb = (case lowestPage pb of None \<Rightarrow> None | Some p \<Rightarrow> map_of pb p)"

definition keepLowestPage :: "PageBlocks \<Rightarrow> PageBlocks" where
  "keepLowestPage pb =
     (case lowestPage pb of
        None \<Rightarrow> []
      | Some p \<Rightarrow> (case map_of pb p of None \<Rightarrow> [] | Some bs \<Rightarrow> [(p, bs)]))"

definition pruneIndex :: "BlockNumberLine \<Rightarrow> BlockNumberLine" where
  "pruneIndex bnl =
     map (\<lambda>(f, lpb). (f, map (\<lambda>(l, pb). (l, keepLowestPage pb)) lpb)) bnl"

definition outOfOrderTwo :: LinePageBlocks where
  \<comment> \<open>two lines with buckets on several pages, none recorded in ascending order\<close>
  "outOfOrderTwo =
     [(12, [(2, [element 0 ''/doc/main.tex'' 12 2 0 25 None 25]),
            (1, [element 2 ''/doc/main.tex'' 12 1 0 50 None 25])]),
      (20, [(3, [element 4 ''/doc/main.tex'' 20 3 10 75 None 25]),
            (1, [element 6 ''/doc/main.tex'' 20 1 20 100 None 25])])]"

definition roundedBottom :: real where
  \<comment> \<open>\<open>200 + 2^(-45)\<close>, the double next above 200: what the program computes for
      \<open>13156352 / 65781.76\<close>\<close>
  "roundedBottom = 7036874417766401 / 35184372088832"

definition equalBottoms :: BlockNumberLine where
  \<comment> \<open>lines 12 and 15 of the input, each with one element whose bottom is
      \<open>roundedBottom\<close>\<close>
  "equalBottoms =
     [(''/doc/main.tex'',
       [(12, [(1, [element 0 ''/doc/main.tex'' 12 1 0 roundedBottom None 25])]),
        (15, [(1, [element 2 ''/doc/main.tex'' 15 1 0 roundedBottom None 25])])])]"

section \<open>Objects\<close>

lemma set_ownKeys: "set (ownKeys idx ob) = fst ` set ob"
  by (auto simp: ownKeys_def Let_def)

lemma lookup_key: "k \<in> fst ` set ob \<Longrightarrow> \<exists>v. map_of ob k = Some v"
  by (metis map_of_eq_None_iff not_Some_eq)

lemma ownKeys_empty: "length (ownKeys idx ob) = 0 \<longleftrightarrow> ob = []"
proof -
  have "ownKeys idx ob = [] \<longleftrightarrow> set (ownKeys idx ob) = {}" by simp
  also have "\<dots> \<longleftrightarrow> ob = []" unfolding set_ownKeys by simp
  finally show ?thesis by simp
qed

lemma sorted_hd_Min:
  fixes s :: "nat list"
  assumes "sorted s" and "s \<noteq> []"
  shows "hd s = Min (set s)"
proof -
  obtain k s' where s: "s = k # s'" using assms(2) by (cases s) simp_all
  have "\<forall>a \<in> set s. k \<le> a" using assms(1) unfolding s by auto
  then have "Min (set s) = k" unfolding s by (intro Min_eqI) auto
  then show ?thesis using s by simp
qed

lemma ownKeys_lowestPage:
  "ownKeys indexOfNumber pb =
     (case lowestPage pb of None \<Rightarrow> [] | Some p \<Rightarrow> p # tl (ownKeys indexOfNumber pb))"
proof -
  let ?f = "\<lambda>k. the (indexOfNumber k)"
  let ?small = "filter (\<lambda>p. p < 4294967295) (map fst pb)"
  let ?big = "filter (\<lambda>k. indexOfNumber k = None) (map fst pb)"
  have fs: "filter (\<lambda>k. indexOfNumber k \<noteq> None) (map fst pb) = ?small"
    by (rule filter_cong) (simp_all add: indexOfNumber_def)
  have "map ?f (sort_key ?f ?small) = sort_key ?f ?small"
    by (rule map_idI) (simp add: indexOfNumber_def)
  moreover have "sorted (map ?f (sort_key ?f ?small))" by (rule sorted_sort_key)
  ultimately have srt: "sorted (sort_key ?f ?small)" by simp
  have set_s: "set (sort_key ?f ?small) = set ?small" by simp
  have ok: "ownKeys indexOfNumber pb = sort_key ?f ?small @ ?big"
    unfolding ownKeys_def Let_def fs by (rule refl)
  show ?thesis
  proof (cases "?small = []")
    case False
    then have ne: "sort_key ?f ?small \<noteq> []"
      using set_s by (metis set_empty)
    have "hd (sort_key ?f ?small) = Min (set ?small)"
      using sorted_hd_Min [OF srt ne] set_s by simp
    then have "hd (ownKeys indexOfNumber pb) = Min (set ?small)"
      unfolding ok using ne by simp
    moreover have "ownKeys indexOfNumber pb \<noteq> []" unfolding ok using ne by simp
    moreover have "lowestPage pb = Some (Min (set ?small))"
      using False by (simp add: lowestPage_def Let_def)
    ultimately show ?thesis by (cases "ownKeys indexOfNumber pb") simp_all
  next
    case True
    then have "\<forall>k \<in> set (map fst pb). \<not> k < 4294967295"
      by (simp add: filter_empty_conv)
    then have "?big = map fst pb"
      by (intro filter_True) (simp add: indexOfNumber_def)
    then have ok2: "ownKeys indexOfNumber pb = map fst pb" unfolding ok using True by simp
    show ?thesis unfolding ok2 using True
      by (cases pb) (auto simp: lowestPage_def Let_def)
  qed
qed

lemma lowestPage_key:
  assumes "lowestPage pb = Some p"
  shows "p \<in> fst ` set pb"
proof -
  have "ownKeys indexOfNumber pb = p # tl (ownKeys indexOfNumber pb)"
    using ownKeys_lowestPage [of pb] assms by simp
  then have "p \<in> set (ownKeys indexOfNumber pb)" by (metis list.set_intros(1))
  then show ?thesis by (simp only: set_ownKeys)
qed

lemma lowestPage_None: "lowestPage pb = None \<longleftrightarrow> pb = []"
  by (cases pb) (auto simp: lowestPage_def Let_def)

lemma lowestPage_single: "lowestPage [(p, bs)] = Some p"
  by (simp add: lowestPage_def Let_def)

lemma lowestPageBucket_keep: "lowestPageBucket (keepLowestPage pb) = lowestPageBucket pb"
proof (cases "lowestPage pb")
  case None
  then show ?thesis by (simp add: keepLowestPage_def lowestPageBucket_def lowestPage_def)
next
  case (Some p)
  then have "p \<in> fst ` set pb" by (rule lowestPage_key)
  then have "\<exists>v. map_of pb p = Some v" by (rule lookup_key)
  then obtain v where v: "map_of pb p = Some v" ..
  show ?thesis using Some v
    by (simp add: keepLowestPage_def lowestPageBucket_def lowestPage_single)
qed

lemma lowestPage_sorted:
  assumes "pb \<noteq> []" and "sorted (map fst pb)"
  shows "lowestPageBucket pb = Some (snd (hd pb))"
proof -
  obtain p bs pb' where pb: "pb = (p, bs) # pb'" using assms(1) by (cases pb) auto
  let ?small = "filter (\<lambda>p. p < 4294967295) (map fst pb)"
  have le: "\<forall>q \<in> fst ` set pb. p \<le> q" using assms(2) unfolding pb by auto
  have "lowestPage pb = Some p"
  proof (cases "?small = []")
    case True
    then show ?thesis unfolding pb by (simp add: lowestPage_def Let_def)
  next
    case False
    then obtain q where q: "q \<in> set ?small" by (cases ?small) auto
    then have "q < 4294967295" "p \<le> q" using le by auto
    then have "p \<in> set ?small" unfolding pb by simp
    moreover have "\<forall>a \<in> set ?small. p \<le> a" using le by auto
    ultimately have "Min (set ?small) = p" by (intro Min_eqI) auto
    then show ?thesis using False by (simp add: lowestPage_def Let_def)
  qed
  then show ?thesis unfolding pb by (simp add: lowestPageBucket_def)
qed

lemma firstPageBlocks_lowest:
  "firstPageBlocks lpb (Some n) =
     (case map_of lpb n of
        None \<Rightarrow> Inl TypeError
      | Some pb \<Rightarrow> (case lowestPageBucket pb of None \<Rightarrow> Inl TypeError | Some bs \<Rightarrow> Inr bs))"
proof (cases "map_of lpb n")
  case None
  then show ?thesis by (simp add: firstPageBlocks_def)
next
  case (Some pb)
  show ?thesis
  proof (cases "lowestPage pb")
    case None
    then have "ownKeys indexOfNumber pb = []" using ownKeys_lowestPage [of pb] by simp
    then show ?thesis using Some None by (simp add: firstPageBlocks_def lowestPageBucket_def)
  next
    case (Some p)
    then have "ownKeys indexOfNumber pb = p # tl (ownKeys indexOfNumber pb)"
      using ownKeys_lowestPage [of pb] by simp
    then obtain ps where "ownKeys indexOfNumber pb = p # ps" by blast
    then show ?thesis using \<open>map_of lpb n = Some pb\<close> Some
      by (simp add: firstPageBlocks_def lowestPageBucket_def split: option.splits)
  qed
qed

section \<open>The parser\<close>

subsection \<open>What a match captures\<close>

lemma plusClass_result:
  "plusClass p s cs k = Some r \<Longrightarrow> \<exists>s'. length s' < length s \<and> k s' cs = Some r"
proof (induction s)
  case Nil
  then show ?case by simp
next
  case (Cons c s)
  show ?case
  proof (cases "plusClass p s cs k")
    case None
    then have "k s cs = Some r" using Cons.prems by (simp split: if_splits)
    then show ?thesis by auto
  next
    case (Some r')
    then have "r' = r" using Cons.prems by (simp split: if_splits)
    then obtain s' where "length s' < length s" "k s' cs = Some r"
      using Cons.IH Some by auto
    then show ?thesis by (intro exI [of _ s']) simp
  qed
qed

lemma matchRe_result:
  "matchRe e s cs k = Some r \<Longrightarrow> \<exists>s' cs'. k s' cs' = Some r"
proof (induction e s cs k rule: matchRe.induct)
  case (6 s cs k)
  then show ?case using plusClass_result [of isDigit s cs k r] by auto
next
  case (7 s cs k)
  then show ?case using plusClass_result [of "\<lambda>c. \<not> isLineTerminator c" s cs k r] by auto
next
  case (8 a b s cs k)
  from "8.prems" have "matchRe a s cs (\<lambda>s' cs'. matchRe b s' cs' k) = Some r" by simp
  from "8.IH"(2) [OF this] obtain s' cs' where "matchRe b s' cs' k = Some r" by blast
  from "8.IH"(1) [OF this] show ?case .
next
  case (9 a b s cs k)
  then show ?case by (auto split: option.splits)
next
  case (10 a s cs k)
  then show ?case by (auto split: option.splits)
next
  case (11 n a s cs k)
  then show ?case by fastforce
qed (auto split: list.splits if_splits)

lemma search_result:
  "search e s = Some r \<Longrightarrow> \<exists>s'. matchRe e s' (\<lambda>_. None) (\<lambda>_ cs. Some cs) = Some r"
  by (induction s) (auto split: option.splits)

lemma inputPattern_path:
  assumes "search inputPattern l = Some cs"
  shows "group cs 2 \<noteq> []"
proof -
  let ?K = "\<lambda>(_::string) (cs::captures). Some cs"
  obtain s0 where m: "matchRe inputPattern s0 (\<lambda>_. None) ?K = Some cs"
    using search_result [OF assms] by blast
  let ?tail = "Seq (Group 2 PlusDot) Eps"
  have "\<exists>s c. matchRe ?tail s c ?K = Some cs"
  proof -
    from m have "matchRe (Lit ''Input:'') s0 (\<lambda>_. None)
        (\<lambda>s c. matchRe (Seq (Group 1 PlusDigit) (Seq (Chr CHR '':'') ?tail)) s c ?K) = Some cs"
      by (simp add: inputPattern_def)
    then obtain s1 c1 where
      "matchRe (Seq (Group 1 PlusDigit) (Seq (Chr CHR '':'') ?tail)) s1 c1 ?K = Some cs"
      using matchRe_result by fast
    then have "matchRe (Group 1 PlusDigit) s1 c1
        (\<lambda>s c. matchRe (Seq (Chr CHR '':'') ?tail) s c ?K) = Some cs"
      by simp
    then obtain s2 c2 where "matchRe (Seq (Chr CHR '':'') ?tail) s2 c2 ?K = Some cs"
      using matchRe_result by fast
    then have "matchRe (Chr CHR '':'') s2 c2 (\<lambda>s c. matchRe ?tail s c ?K) = Some cs"
      by simp
    then show ?thesis using matchRe_result by fast
  qed
  then obtain s c where "matchRe ?tail s c ?K = Some cs" by blast
  then have "plusClass (\<lambda>c. \<not> isLineTerminator c) s c
      (\<lambda>s' cs'. Some (cs'(2 \<mapsto> take (length s - length s') s))) = Some cs"
    by simp
  from plusClass_result [OF this] obtain s' :: string where s': "length s' < length s"
    "c(2 \<mapsto> take (length s - length s') s) = cs"
    by (elim exE conjE) simp
  have "s \<noteq> []" using s'(1) by auto
  then have "take (length s - length s') s \<noteq> []" using s'(1) by simp
  then show ?thesis using s'(2) [symmetric] by (simp add: group_def)
qed

subsection \<open>The index is well formed\<close>

lemma update_nonempty: "AList.update k v al \<noteq> []"
  by (cases al) auto

lemma wfPageBlocks_update:
  assumes "pb = [] \<or> wfPageBlocks f l pb" and "wfElement f l p e"
  shows "wfPageBlocks f l
           (AList.update p ((case map_of pb p of None \<Rightarrow> [] | Some v \<Rightarrow> v) @ [e]) pb)"
proof -
  let ?bs = "case map_of pb p of None \<Rightarrow> [] | Some v \<Rightarrow> v"
  have d: "distinct (map fst pb)" using assms(1) by (auto simp: wfPageBlocks_def)
  have old: "\<And>q bs. map_of pb q = Some bs \<Longrightarrow> bs \<noteq> [] \<and> (\<forall>b \<in> set bs. wfElement f l q b)"
    using assms(1) by (auto simp: wfPageBlocks_def)
  have new: "\<forall>b \<in> set (?bs @ [e]). wfElement f l p b"
  proof (cases "map_of pb p")
    case None
    then show ?thesis using assms(2) by simp
  next
    case (Some bs)
    then show ?thesis using assms(2) old [OF Some] by simp
  qed
  show ?thesis
    unfolding wfPageBlocks_def
    using d old new by (auto simp: update_nonempty distinct_update update_conv')
qed

lemma wfLinePageBlocks_update:
  assumes "lpb = [] \<or> wfLinePageBlocks f lpb" and "wfElement f l p e"
  shows "wfLinePageBlocks f
           (AList.update l
              (AList.update p
                 ((case map_of (getOrEmpty lpb l) p of None \<Rightarrow> [] | Some v \<Rightarrow> v) @ [e])
                 (getOrEmpty lpb l)) lpb)"
proof -
  let ?pb = "getOrEmpty lpb l"
  have d: "distinct (map fst lpb)" using assms(1) by (auto simp: wfLinePageBlocks_def)
  have old: "\<And>k pb. map_of lpb k = Some pb \<Longrightarrow> wfPageBlocks f k pb"
    using assms(1) by (auto simp: wfLinePageBlocks_def)
  have "?pb = [] \<or> wfPageBlocks f l ?pb"
    using old by (auto simp: getOrEmpty_def split: option.splits)
  then have new: "wfPageBlocks f l
      (AList.update p ((case map_of ?pb p of None \<Rightarrow> [] | Some v \<Rightarrow> v) @ [e]) ?pb)"
    using assms(2) by (rule wfPageBlocks_update)
  show ?thesis
    unfolding wfLinePageBlocks_def
    using d old new by (auto simp: update_nonempty distinct_update update_conv')
qed

lemma recordElement_wf:
  assumes "wfIndex bnl" and "f \<noteq> []" and "wfElement f (line e) (page e) e"
  shows "wfIndex (recordElement bnl f e)"
proof -
  let ?lpb = "getOrEmpty bnl f"
  have d: "distinct (map fst bnl)" using assms(1) by (simp add: wfIndex_def)
  have old: "\<And>g lpb. map_of bnl g = Some lpb \<Longrightarrow> g \<noteq> [] \<and> wfLinePageBlocks g lpb"
    using assms(1) by (simp add: wfIndex_def)
  have "?lpb = [] \<or> wfLinePageBlocks f ?lpb"
    using old by (auto simp: getOrEmpty_def split: option.splits)
  then have new: "wfLinePageBlocks f
      (AList.update (line e)
         (AList.update (page e)
            ((case map_of (getOrEmpty ?lpb (line e)) (page e) of None \<Rightarrow> [] | Some v \<Rightarrow> v) @ [e])
            (getOrEmpty ?lpb (line e))) ?lpb)"
    using assms(3) by (rule wfLinePageBlocks_update)
  show ?thesis
    unfolding wfIndex_def recordElement_def Let_def
    using d old new assms(2) by (auto simp: distinct_update update_conv')
qed


lemma newElement_index:
  assumes "newElement cs st = Inr st1"
  shows "\<exists>f e. map_of (files st) (toString (parseInt (group cs 2))) = Some f
           \<and> file_b e = Some f \<and> 0 \<le> left e \<and> 0 \<le> bottom e
           \<and> (case width e of None \<Rightarrow> True | Some w \<Rightarrow> 0 \<le> w)
           \<and> blockNumberLine st1 = recordElement (blockNumberLine st) (path f) e
           \<and> files st1 = files st"
proof (cases "currentPage st")
  case None
  then show ?thesis using assms by (simp add: newElement_def)
next
  case (Some cp)
  note cp = Some
  show ?thesis
  proof (cases "currentElement st")
    case None
    then show ?thesis using assms cp by (simp add: newElement_def)
  next
    case (Some ce)
    show ?thesis
    proof (cases ce)
      case (ParentPage pg)
      then show ?thesis using assms cp Some by (simp add: newElement_def)
    next
      case (ParentBlock a)
      let ?e = "makeElement cs st cp a"
      have eq: "newElement cs st =
          (case file_b ?e of
             None \<Rightarrow> Inl TypeError
           | Some f \<Rightarrow>
               Inr (st\<lparr>store := pushElement a (length (store st)) (store st @ [?e]),
                       blockNumberLine := recordElement (blockNumberLine st) (path f) ?e\<rparr>))"
        using cp Some ParentBlock by (simp add: newElement_def Let_def)
      obtain f where f: "file_b ?e = Some f"
        using assms unfolding eq by (cases "file_b ?e") simp_all
      have "blockNumberLine st1 = recordElement (blockNumberLine st) (path f) ?e
            \<and> files st1 = files st"
        using assms unfolding eq f by auto
      moreover have "0 \<le> left ?e" "0 \<le> bottom ?e"
        "case width ?e of None \<Rightarrow> True | Some w \<Rightarrow> 0 \<le> w"
        by (simp_all add: makeElement_def unit_def split: option.splits)
      moreover have "map_of (files st) (toString (parseInt (group cs 2))) = Some f"
        using f by (simp add: makeElement_def)
      ultimately show ?thesis using f by blast
    qed
  qed
qed


lemma newElement_wf:
  assumes "wfState st" and "newElement cs st = Inr st1"
  shows "wfState st1"
proof -
  obtain f e where f: "map_of (files st) (toString (parseInt (group cs 2))) = Some f"
    and e: "file_b e = Some f" "0 \<le> left e" "0 \<le> bottom e"
           "case width e of None \<Rightarrow> True | Some w \<Rightarrow> 0 \<le> w"
    and bnl: "blockNumberLine st1 = recordElement (blockNumberLine st) (path f) e"
    and fl: "files st1 = files st"
    using newElement_index [OF assms(2)] by blast
  have pf: "path f \<noteq> []" using assms(1) f by (auto simp: wfState_def)
  have "wfElement (path f) (line e) (page e) e"
    using e by (simp add: wfElement_def)
  then have "wfIndex (recordElement (blockNumberLine st) (path f) e)"
    using assms(1) pf by (intro recordElement_wf) (simp_all add: wfState_def)
  then show ?thesis using assms(1) bnl fl by (simp add: wfState_def)
qed

lemma newBlock_index:
  assumes "newBlock kind v cs st = Inr st1"
  shows "blockNumberLine st1 = blockNumberLine st \<and> files st1 = files st"
proof (cases "currentPage st")
  case None
  then show ?thesis using assms by (simp add: newBlock_def)
next
  case (Some cp)
  show ?thesis
  proof (cases "currentElement st")
    case None
    then show ?thesis using assms Some by (simp add: newBlock_def)
  next
    case ce: (Some ce)
    show ?thesis using assms Some ce by (auto simp: newBlock_def Let_def)
  qed
qed

lemma closeBlock_index:
  "blockNumberLine (closeBlock st) = blockNumberLine st \<and> files (closeBlock st) = files st"
  by (simp add: closeBlock_def split: option.splits Parent.splits)

lemma newBlock_wf:
  assumes "wfState st" and "newBlock kind v cs st = Inr st1"
  shows "wfState st1"
  using assms(1) newBlock_index [OF assms(2)] by (simp add: wfState_def)

lemma closeBlock_wf: "wfState st \<Longrightarrow> wfState (closeBlock st)"
  using closeBlock_index [of st] by (simp add: wfState_def)

lemma parseLine_blocks_wf:
  assumes "wfState st"
      and "(case search verticalBlockPattern l of
             Some cs \<Rightarrow> newBlock ''vertical'' True cs st
           | None \<Rightarrow>
          (case search closeverticalBlockPattern l of
             Some cs \<Rightarrow> Inr (closeBlock st)
           | None \<Rightarrow>
          (case search horizontalBlockPattern l of
             Some cs \<Rightarrow> newBlock ''horizontal'' False cs st
           | None \<Rightarrow>
          (case search closehorizontalBlockPattern l of
             Some cs \<Rightarrow> Inr (closeBlock st)
           | None \<Rightarrow>
          (case search elementBlockPattern l of
             Some cs \<Rightarrow> newElement cs st
           | None \<Rightarrow> Inr st))))) = Inr st1"
  shows "wfState st1"
proof (cases "search verticalBlockPattern l")
  case (Some cs)
  then have "newBlock ''vertical'' True cs st = Inr st1" using assms(2) by simp
  with assms(1) show ?thesis by (rule newBlock_wf)
next
  case v: None
  show ?thesis
  proof (cases "search closeverticalBlockPattern l")
    case (Some cs)
    then have "st1 = closeBlock st" using assms(2) v by simp
    then show ?thesis using assms(1) by (simp add: closeBlock_wf)
  next
    case cv: None
    show ?thesis
    proof (cases "search horizontalBlockPattern l")
      case (Some cs)
      then have "newBlock ''horizontal'' False cs st = Inr st1" using assms(2) v cv by simp
      with assms(1) show ?thesis by (rule newBlock_wf)
    next
      case h: None
      show ?thesis
      proof (cases "search closehorizontalBlockPattern l")
        case (Some cs)
        then have "st1 = closeBlock st" using assms(2) v cv h by simp
        then show ?thesis using assms(1) by (simp add: closeBlock_wf)
      next
        case ch: None
        show ?thesis
        proof (cases "search elementBlockPattern l")
          case (Some cs)
          then have "newElement cs st = Inr st1" using assms(2) v cv h ch by simp
          with assms(1) show ?thesis by (rule newElement_wf)
        next
          case None
          then show ?thesis using assms v cv h ch by simp
        qed
      qed
    qed
  qed
qed

lemma parseLine_wf:
  assumes "wfState st" and "parseLine st l = Inr st1"
  shows "wfState st1"
proof (cases "search inputPattern l")
  case (Some cs)
  then have st1: "st1 = st\<lparr>files := AList.update (group cs 1) \<lparr>path = group cs 2\<rparr> (files st)\<rparr>"
    using assms(2) by (simp add: parseLine_def)
  have "group cs 2 \<noteq> []" using Some by (rule inputPattern_path)
  then show ?thesis using assms(1) unfolding st1 by (auto simp: wfState_def update_conv')
next
  case i: None
  show ?thesis
  proof (cases "search offsetPattern l")
    case (Some cs)
    then have "blockNumberLine st1 = blockNumberLine st \<and> files st1 = files st"
      using assms(2) i by (auto simp: parseLine_def split: if_splits)
    then show ?thesis using assms(1) by (simp add: wfState_def)
  next
    case off: None
    show ?thesis
    proof (cases "search openPagePattern l")
      case (Some cs)
      then have "blockNumberLine st1 = blockNumberLine st \<and> files st1 = files st"
        using assms(2) i off by (auto simp: parseLine_def Let_def)
      then show ?thesis using assms(1) by (simp add: wfState_def)
    next
      case op: None
      show ?thesis
      proof (cases "search closePagePattern l")
        case None
        then have "(case search verticalBlockPattern l of
             Some cs \<Rightarrow> newBlock ''vertical'' True cs st
           | None \<Rightarrow>
          (case search closeverticalBlockPattern l of
             Some cs \<Rightarrow> Inr (closeBlock st)
           | None \<Rightarrow>
          (case search horizontalBlockPattern l of
             Some cs \<Rightarrow> newBlock ''horizontal'' False cs st
           | None \<Rightarrow>
          (case search closehorizontalBlockPattern l of
             Some cs \<Rightarrow> Inr (closeBlock st)
           | None \<Rightarrow>
          (case search elementBlockPattern l of
             Some cs \<Rightarrow> newElement cs st
           | None \<Rightarrow> Inr st))))) = Inr st1"
          using assms(2) i off op by (simp add: parseLine_def)
        with assms(1) show ?thesis by (rule parseLine_blocks_wf)
      next
        case (Some cs)
        show ?thesis
        proof (cases "currentPage st")
          case None
          then have "(case search verticalBlockPattern l of
             Some cs \<Rightarrow> newBlock ''vertical'' True cs st
           | None \<Rightarrow>
          (case search closeverticalBlockPattern l of
             Some cs \<Rightarrow> Inr (closeBlock st)
           | None \<Rightarrow>
          (case search horizontalBlockPattern l of
             Some cs \<Rightarrow> newBlock ''horizontal'' False cs st
           | None \<Rightarrow>
          (case search closehorizontalBlockPattern l of
             Some cs \<Rightarrow> Inr (closeBlock st)
           | None \<Rightarrow>
          (case search elementBlockPattern l of
             Some cs \<Rightarrow> newElement cs st
           | None \<Rightarrow> Inr st))))) = Inr st1"
            using assms(2) i off op Some by (simp add: parseLine_def)
          with assms(1) show ?thesis by (rule parseLine_blocks_wf)
        next
          case cp: (Some cp)
          then have "blockNumberLine st1 = blockNumberLine st \<and> files st1 = files st"
            using assms(2) i off op Some by (auto simp: parseLine_def)
          then show ?thesis using assms(1) by (simp add: wfState_def)
        qed
      qed
    qed
  qed
qed

lemma parseLines_wf:
  "wfState st \<Longrightarrow> parseLines st ls = Inr st1 \<Longrightarrow> wfState st1"
  by (induction ls arbitrary: st) (auto split: sum.splits dest: parseLine_wf)

lemma parseSyncTex_wf:
  assumes "parseSyncTex t = Inr m"
  shows "wfIndex (blockNumberLine m)"
proof -
  let ?st = "initialState\<lparr>version := replaceFirst ''SyncTeX Version:'' (hd (split CHR 0x0A t))\<rparr>"
  have w: "wfState ?st" by (simp add: wfState_def wfIndex_def initialState_def)
  obtain st1 where p: "parseLines ?st (tl (split CHR 0x0A t)) = Inr st1"
    and m: "blockNumberLine m = blockNumberLine st1"
    using assms by (auto simp: parseSyncTex_def Let_def split: sum.splits)
  have "wfState st1" using w p by (rule parseLines_wf)
  then show ?thesis using m by (simp add: wfState_def)
qed

subsection \<open>What every parsed file guarantees\<close>

lemma parsed_no_empty_name:
  assumes "parseSyncTex t = Inr m"
  shows "[] \<notin> fst ` set (blockNumberLine m)"
proof
  assume "[] \<in> fst ` set (blockNumberLine m)"
  then have "\<exists>lpb. map_of (blockNumberLine m) [] = Some lpb" by (rule lookup_key)
  then obtain lpb where "map_of (blockNumberLine m) [] = Some lpb" ..
  then show False using parseSyncTex_wf [OF assms] unfolding wfIndex_def by blast
qed

lemma parsed_first_bucket:
  assumes "parseSyncTex t = Inr m"
      and "map_of (blockNumberLine m) filePath = Some lpb"
      and "map_of lpb lineNo = Some pb"
  shows "\<exists>pg pgs b bs. ownKeys indexOfNumber pb = pg # pgs \<and> map_of pb pg = Some (b # bs)"
proof -
  have "wfLinePageBlocks filePath lpb"
    using parseSyncTex_wf [OF assms(1)] assms(2) by (simp add: wfIndex_def)
  then have w: "wfPageBlocks filePath lineNo pb"
    using assms(3) by (simp add: wfLinePageBlocks_def)
  then have "ownKeys indexOfNumber pb \<noteq> []"
    using ownKeys_empty [of indexOfNumber pb] by (simp add: wfPageBlocks_def)
  then obtain pg pgs where k: "ownKeys indexOfNumber pb = pg # pgs"
    by (cases "ownKeys indexOfNumber pb") simp_all
  then have "pg \<in> set (ownKeys indexOfNumber pb)" by simp
  then have "pg \<in> fst ` set pb" by (simp only: set_ownKeys)
  then have "\<exists>v. map_of pb pg = Some v" by (rule lookup_key)
  then obtain v where v: "map_of pb pg = Some v" ..
  then have "v \<noteq> []" using w by (simp add: wfPageBlocks_def)
  then obtain b bs where "v = b # bs" by (cases v) simp_all
  then show ?thesis using k v by blast
qed

lemma forwardOnFile_index:
  assumes "parsedIndex t = Some (\<lparr>offset_x = 0, offset_y = 0\<rparr>, idx)"
  shows "forwardOnFile lineNo filePath t = syncTexJsForward lineNo filePath (withIndex idx)"
  using assms
proof -
  obtain m where m: "parseSyncTex t = Inr m" "offset m = \<lparr>offset_x = 0, offset_y = 0\<rparr>"
    "blockNumberLine m = idx"
    using assms by (auto simp: parsedIndex_def split: sum.splits)
  have w: "offset (withIndex idx) = \<lparr>offset_x = 0, offset_y = 0\<rparr>"
    "blockNumberLine (withIndex idx) = idx"
    by (simp_all add: withIndex_def)
  show ?thesis
    unfolding forwardOnFile_def m(1) sum.case syncTexJsForward_def m(2,3) w by (rule refl)
qed

lemma backwardOnFile_index:
  assumes "parsedIndex t = Some (\<lparr>offset_x = 0, offset_y = 0\<rparr>, idx)"
  shows "backwardOnFile pg x1 y1 t = syncTexJsBackward pg x1 y1 (withIndex idx)"
  using assms
proof -
  obtain m where m: "parseSyncTex t = Inr m" "offset m = \<lparr>offset_x = 0, offset_y = 0\<rparr>"
    "blockNumberLine m = idx"
    using assms by (auto simp: parsedIndex_def split: sum.splits)
  have w: "offset (withIndex idx) = \<lparr>offset_x = 0, offset_y = 0\<rparr>"
    "blockNumberLine (withIndex idx) = idx"
    by (simp_all add: withIndex_def)
  show ?thesis
    unfolding backwardOnFile_def m(1) sum.case syncTexJsBackward_def m(2,3) w by (rule refl)
qed


subsection \<open>The example files\<close>

lemmas pattern_defs =
  inputPattern_def offsetPattern_def openPagePattern_def closePagePattern_def
  verticalBlockPattern_def closeverticalBlockPattern_def horizontalBlockPattern_def
  closehorizontalBlockPattern_def elementBlockPattern_def blockPattern_def signedDigits_def

lemmas parse_eval =
  parsedIndex_def parseSyncTex_def parseLine_def pattern_defs initialState_def closeBlock_def
  newBlock_def newElement_def makeBlock_def makeElement_def pushElement_def isDigit_def
  isLineTerminator_def group_def parseInt_def numberOf_def unit_def digitChar_def
  recordElement_def getOrEmpty_def joinLines_def element_def Let_def

lemma parse_twoLinesFile:
  "parsedIndex twoLinesFile = Some (\<lparr>offset_x = 0, offset_y = 0\<rparr>, twoLinesIndex)"
  by (simp add: parse_eval twoLinesFile_def twoLinesIndex_def twoLines_def)

lemma parse_nestedBoxesFile:
  "parsedIndex nestedBoxesFile = Some (\<lparr>offset_x = 0, offset_y = 0\<rparr>, nestedBoxes)"
  by (simp add: parse_eval nestedBoxesFile_def nestedBoxes_def)

lemma parse_negativeHeightFile:
  "parsedIndex negativeHeightFile
     = Some (\<lparr>offset_x = 0, offset_y = 0\<rparr>,
         [(''/doc/main.tex'', [(1, [(1, [element 0 ''/doc/main.tex'' 1 1 0 0 (Some 25) (- 1000)])])])])"
  by (simp add: parse_eval negativeHeightFile_def)

lemma parse_farLeftFile:
  "parsedIndex farLeftFile
     = Some (\<lparr>offset_x = 0, offset_y = 0\<rparr>,
         [(''/doc/main.tex'',
           [(1, [(1, [element 0 ''/doc/main.tex'' 1 1 30000000000000000 0 None 0])])])])"
  by (simp add: parse_eval farLeftFile_def)

lemma parse_pagesOutOfOrder:
  "parsedIndex pagesOutOfOrder
     = Some (\<lparr>offset_x = 0, offset_y = 0\<rparr>, [(''/doc/main.tex'', outOfOrder)])"
  by (simp add: parse_eval pagesOutOfOrder_def outOfOrder_def)

subsection \<open>Close markers with no open block\<close>

text \<open>
  C3, as stated, fails: the two branches for a close marker (lines 218-225 and 255-262)
  change the state under a guard and have no \<open>else\<close>; a close marker that the guard
  rejects is skipped. Neither file below has a block open when its close marker is read
  (in the first nothing is open, in the second a bare page), and both are parsed.
\<close>

theorem orphan_close_marker_counterexample:
  "parseSyncTex (joinLines [''SyncTeX Version:1'', '']''])
     = Inr \<lparr>offset = \<lparr>offset_x = 0, offset_y = 0\<rparr>, version = ''1'', files = [],
            pages = [], blockNumberLine = [], hBlocks = [], numberPages = 0, store = []\<rparr>
   \<and> parseSyncTex (joinLines [''SyncTeX Version:1'', ''{1'', '')'', ''}1''])
     = Inr \<lparr>offset = \<lparr>offset_x = 0, offset_y = 0\<rparr>, version = ''1'', files = [],
            pages = [(''1'', \<lparr>page_p = 1, blocks_p = [], type_p = ''page''\<rparr>)],
            blockNumberLine = [], hBlocks = [], numberPages = 1, store = []\<rparr>"
  by (simp add: parse_eval)

lemma closesBlock_markers: "closesBlock st '']''" "closesBlock st '')''"
  by (simp_all add: closesBlock_def pattern_defs isDigit_def isLineTerminator_def)

text \<open>
  C3, amended: a block close marker that is read while no block is open (the current
  context is a page or nothing at all) is skipped: the line changes nothing in the state
  of the parser, raises no error, and parsing goes on with the next line.
\<close>

theorem orphan_close_marker_skipped:
  assumes "closesBlock st l" and "\<forall>a. currentElement st \<noteq> Some (ParentBlock a)"
  shows "parseLine st l = Inr st"
proof -
  have cb: "closeBlock st = st"
    using assms(2) by (auto simp: closeBlock_def split: option.splits Parent.splits)
  show ?thesis
    using assms(1) cb
    by (auto simp: parseLine_def closesBlock_def split: option.splits)
qed

theorem orphan_close_marker_skipped_witness:
  "closesBlock
     (initialState\<lparr>currentPage := Some \<lparr>page_p = 1, blocks_p = [], type_p = ''page''\<rparr>,
        currentElement := Some (ParentPage \<lparr>page_p = 1, blocks_p = [], type_p = ''page''\<rparr>)\<rparr>)
     '']''
   \<and> parseLine
       (initialState\<lparr>currentPage := Some \<lparr>page_p = 1, blocks_p = [], type_p = ''page''\<rparr>,
          currentElement := Some (ParentPage \<lparr>page_p = 1, blocks_p = [], type_p = ''page''\<rparr>)\<rparr>)
       '']''
     = Inr (initialState\<lparr>currentPage := Some \<lparr>page_p = 1, blocks_p = [], type_p = ''page''\<rparr>,
          currentElement := Some (ParentPage \<lparr>page_p = 1, blocks_p = [], type_p = ''page''\<rparr>)\<rparr>)"
proof -
  let ?st = "initialState\<lparr>currentPage := Some \<lparr>page_p = 1, blocks_p = [], type_p = ''page''\<rparr>,
        currentElement := Some (ParentPage \<lparr>page_p = 1, blocks_p = [], type_p = ''page''\<rparr>)\<rparr>"
  have h1: "closesBlock ?st '']''" by (rule closesBlock_markers)
  have h2: "\<forall>a. currentElement ?st \<noteq> Some (ParentBlock a)" by simp
  show ?thesis using h1 orphan_close_marker_skipped [OF h1 h2] by simp
qed

section \<open>The covering rectangle\<close>

lemma Max_insert_max:
  fixes a :: real
  shows "finite S \<Longrightarrow> Max (insert (max a x) S) = Max (insert a (insert x S))"
  by (cases "S = {}") (simp_all add: max.assoc)

lemma Min_insert_min:
  fixes a :: real
  shows "finite S \<Longrightarrow> Min (insert (min a x) S) = Min (insert a (insert x S))"
  by (cases "S = {}") (simp_all add: min.assoc)

lemma coverBlock_fields:
  "cBottom (coverBlock c b) = max (cBottom c) (bottom b)"
  "cTop (coverBlock c b) = min (cTop c) (bottom b - height b)"
  "cLeft (coverBlock c b) = min (cLeft c) (left b)"
  "cRight (coverBlock c b) =
     (case width b of None \<Rightarrow> cRight c | Some w \<Rightarrow> max (cRight c) (left b + w))"
  by (auto simp: coverBlock_def Let_def split: option.splits)

lemma foldl_coverBlock_bottom:
  "cBottom (foldl coverBlock c bs) = Max (insert (cBottom c) (bottom ` set bs))"
proof (induction bs arbitrary: c)
  case Nil
  show ?case by simp
next
  case (Cons b bs)
  have "Max (insert (max (cBottom c) (bottom b)) (bottom ` set bs))
      = Max (insert (cBottom c) (insert (bottom b) (bottom ` set bs)))"
    by (rule Max_insert_max) simp
  then show ?case by (simp add: Cons.IH coverBlock_fields)
qed

lemma foldl_coverBlock_top:
  "cTop (foldl coverBlock c bs)
     = Min (insert (cTop c) ((\<lambda>b. bottom b - height b) ` set bs))"
proof (induction bs arbitrary: c)
  case Nil
  show ?case by simp
next
  case (Cons b bs)
  let ?T = "(\<lambda>b. bottom b - height b) ` set bs"
  have "Min (insert (min (cTop c) (bottom b - height b)) ?T)
      = Min (insert (cTop c) (insert (bottom b - height b) ?T))"
    by (rule Min_insert_min) simp
  then show ?case by (simp add: Cons.IH coverBlock_fields)
qed

lemma foldl_coverBlock_left:
  "cLeft (foldl coverBlock c bs) = Min (insert (cLeft c) (left ` set bs))"
proof (induction bs arbitrary: c)
  case Nil
  show ?case by simp
next
  case (Cons b bs)
  have "Min (insert (min (cLeft c) (left b)) (left ` set bs))
      = Min (insert (cLeft c) (insert (left b) (left ` set bs)))"
    by (rule Min_insert_min) simp
  then show ?case by (simp add: Cons.IH coverBlock_fields)
qed

lemma foldl_coverBlock_right:
  "cRight (foldl coverBlock c bs) = Max (insert (cRight c) (set (rights bs)))"
proof (induction bs arbitrary: c)
  case Nil
  show ?case by (simp add: rights_def)
next
  case (Cons b bs)
  show ?case
  proof (cases "width b")
    case None
    then show ?thesis by (simp add: Cons.IH coverBlock_fields rights_def)
  next
    case (Some w)
    have "Max (insert (max (cRight c) (left b + w)) (set (rights bs)))
        = Max (insert (cRight c) (insert (left b + w) (set (rights bs))))"
      by (rule Max_insert_max) simp
    moreover have "rights (b # bs) = (left b + w) # rights bs"
      using Some by (simp add: rights_def)
    ultimately show ?thesis using Some by (simp add: Cons.IH coverBlock_fields)
  qed
qed

lemma covering_bottom:
  "cBottom (getCoveringRectangle bs) = Max (insert 0 (bottom ` set bs))"
  by (simp add: getCoveringRectangle_def foldl_coverBlock_bottom)

lemma covering_top:
  "cTop (getCoveringRectangle bs)
     = Min (insert 20000000000000000 ((\<lambda>b. bottom b - height b) ` set bs))"
  by (simp add: getCoveringRectangle_def foldl_coverBlock_top)

lemma covering_left:
  "cLeft (getCoveringRectangle bs) = Min (insert 20000000000000000 (left ` set bs))"
  by (simp add: getCoveringRectangle_def foldl_coverBlock_left)

lemma covering_right:
  "cRight (getCoveringRectangle bs) = Max (insert 0 (set (rights bs)))"
  by (simp add: getCoveringRectangle_def foldl_coverBlock_right)


text \<open>
  C2, as stated, fails: the reductions start from the constants \<open>0\<close> and \<open>2e16\<close>, which
  take part in the result. The parser reads the \<open>left\<close> of an element as an unsigned run
  of digits of any length; the element of \<open>farLeftFile\<close> has \<open>left = 3e16\<close>, and the
  covering rectangle of its bucket has \<open>left = 2e16\<close>, which is not the least \<open>left\<close> of
  the bucket.
\<close>

theorem covering_reference_counterexample:
  "parsedIndex farLeftFile
     = Some (\<lparr>offset_x = 0, offset_y = 0\<rparr>,
         [(''/doc/main.tex'',
           [(1, [(1, [element 0 ''/doc/main.tex'' 1 1 30000000000000000 0 None 0])])])])
   \<and> cLeft (getCoveringRectangle [element 0 ''/doc/main.tex'' 1 1 30000000000000000 0 None 0])
       \<noteq> Min (left ` set [element 0 ''/doc/main.tex'' 1 1 30000000000000000 0 None 0])"
  using parse_farLeftFile by (simp add: covering_left element_def)

text \<open>
  C2, amended: for every non-empty list of blocks, each side of the covering rectangle is
  the reduction the claim names, taken together with the constant the loop starts from:
  \<open>bottom = max(0, max bottom)\<close>, \<open>top = min(2e16, min (bottom - height))\<close>,
  \<open>left = min(2e16, min left)\<close>, and \<open>right = max(0, max (left + width))\<close> over the blocks
  whose width is defined, \<open>0\<close> when there is none.
\<close>

theorem covering_reference:
  assumes "bs \<noteq> []"
  shows "cBottom (getCoveringRectangle bs) = max 0 (Max (bottom ` set bs))
       \<and> cTop (getCoveringRectangle bs)
           = min 20000000000000000 (Min ((\<lambda>b. bottom b - height b) ` set bs))
       \<and> cLeft (getCoveringRectangle bs) = min 20000000000000000 (Min (left ` set bs))
       \<and> cRight (getCoveringRectangle bs)
           = (if rights bs = [] then 0 else max 0 (Max (set (rights bs))))"
proof -
  have ne: "set bs \<noteq> {}" using assms by simp
  have b: "cBottom (getCoveringRectangle bs) = max 0 (Max (bottom ` set bs))"
    using ne by (simp add: covering_bottom)
  have t: "cTop (getCoveringRectangle bs)
           = min 20000000000000000 (Min ((\<lambda>b. bottom b - height b) ` set bs))"
    using ne by (simp add: covering_top)
  have l: "cLeft (getCoveringRectangle bs) = min 20000000000000000 (Min (left ` set bs))"
    using ne by (simp add: covering_left)
  have r: "cRight (getCoveringRectangle bs)
           = (if rights bs = [] then 0 else max 0 (Max (set (rights bs))))"
    by (simp add: covering_right)
  from b t l r show ?thesis by simp
qed

theorem covering_reference_witness:
  "[element 0 ''/doc/main.tex'' 1 1 3 20 (Some 4) 10, element 0 ''/doc/main.tex'' 1 1 5 30 None 10] \<noteq> []
   \<and> cBottom (getCoveringRectangle
        [element 0 ''/doc/main.tex'' 1 1 3 20 (Some 4) 10, element 0 ''/doc/main.tex'' 1 1 5 30 None 10]) = 30
   \<and> cTop (getCoveringRectangle
        [element 0 ''/doc/main.tex'' 1 1 3 20 (Some 4) 10, element 0 ''/doc/main.tex'' 1 1 5 30 None 10]) = 10
   \<and> cLeft (getCoveringRectangle
        [element 0 ''/doc/main.tex'' 1 1 3 20 (Some 4) 10, element 0 ''/doc/main.tex'' 1 1 5 30 None 10]) = 3
   \<and> cRight (getCoveringRectangle
        [element 0 ''/doc/main.tex'' 1 1 3 20 (Some 4) 10, element 0 ''/doc/main.tex'' 1 1 5 30 None 10]) = 7"
  using covering_reference
    [of "[element 0 ''/doc/main.tex'' 1 1 3 20 (Some 4) 10, element 0 ''/doc/main.tex'' 1 1 5 30 None 10]"]
  by (simp add: element_def rights_def)

subsection \<open>The buckets of a parsed file\<close>

text \<open>
  The elements that the parser records have a \<open>left\<close>, a \<open>bottom\<close> and a defined \<open>width\<close>
  that are not negative (it reads them without their sign). So on a bucket of a parsed
  file \<open>bottom\<close> and \<open>right\<close> are the reductions themselves, and \<open>right \<ge> left\<close> holds
  whenever a width is defined.
\<close>

lemma parsed_bucket:
  assumes "parseSyncTex t = Inr m"
      and "map_of (blockNumberLine m) f = Some lpb" and "map_of lpb l = Some pb"
      and "map_of pb p = Some bs"
  shows "bs \<noteq> [] \<and> (\<forall>b \<in> set bs. wfElement f l p b)"
proof -
  have "wfLinePageBlocks f lpb"
    using parseSyncTex_wf [OF assms(1)] assms(2) by (simp add: wfIndex_def)
  then have "wfPageBlocks f l pb" using assms(3) by (simp add: wfLinePageBlocks_def)
  then show ?thesis using assms(4) by (simp add: wfPageBlocks_def)
qed

lemma parsed_covering:
  assumes "parseSyncTex t = Inr m"
      and "map_of (blockNumberLine m) f = Some lpb" and "map_of lpb l = Some pb"
      and "map_of pb p = Some bs"
  shows "cBottom (getCoveringRectangle bs) = Max (bottom ` set bs)"
    and "rights bs \<noteq> [] \<Longrightarrow> cRight (getCoveringRectangle bs) = Max (set (rights bs))"
    and "rights bs \<noteq> [] \<Longrightarrow> cLeft (getCoveringRectangle bs) \<le> cRight (getCoveringRectangle bs)"
proof -
  note pb = parsed_bucket [OF assms]
  have ne: "set bs \<noteq> {}" using pb by simp
  have b0: "\<forall>b \<in> set bs. 0 \<le> bottom b" using pb by (simp add: wfElement_def)
  obtain b1 where b1: "b1 \<in> set bs" using pb by (cases bs) auto
  have "bottom b1 \<le> Max (bottom ` set bs)" using b1 by (intro Max_ge) auto
  moreover have "0 \<le> bottom b1" using b0 b1 by blast
  ultimately have "0 \<le> Max (bottom ` set bs)" by linarith
  then show "cBottom (getCoveringRectangle bs) = Max (bottom ` set bs)"
    using ne by (simp add: covering_bottom)
  have r0: "\<forall>r \<in> set (rights bs). 0 \<le> r"
    using pb by (auto simp: rights_def wfElement_def split: option.splits)
  {
    assume r: "rights bs \<noteq> []"
    then obtain r1 where r1: "r1 \<in> set (rights bs)" by (cases "rights bs") auto
    have "r1 \<le> Max (set (rights bs))" using r1 by (intro Max_ge) auto
    moreover have "0 \<le> r1" using r0 r1 by blast
    ultimately have "0 \<le> Max (set (rights bs))" by linarith
    then show "cRight (getCoveringRectangle bs) = Max (set (rights bs))"
      using r by (simp add: covering_right)
  }
  {
    assume r: "rights bs \<noteq> []"
    then obtain b where b: "b \<in> set bs" "width b \<noteq> None"
      by (auto simp: rights_def filter_empty_conv)
    then obtain w where w: "width b = Some w" by auto
    have "0 \<le> w" using pb b(1) w by (auto simp: wfElement_def)
    moreover have "left b + w \<in> set (rights bs)" using b(1) w by (force simp: rights_def)
    then have "left b + w \<le> cRight (getCoveringRectangle bs)"
      unfolding covering_right by (intro Max_ge) auto
    moreover have "cLeft (getCoveringRectangle bs) \<le> left b"
      unfolding covering_left using b(1) by (intro Min_le) auto
    ultimately show "cLeft (getCoveringRectangle bs) \<le> cRight (getCoveringRectangle bs)"
      by linarith
  }
qed

subsection \<open>The order of the sides\<close>

text \<open>
  C9, as stated, fails: the height of an element is the height of the block that is open
  when the element is read, and the parser reads that height with its sign. The element
  of \<open>negativeHeightFile\<close> has \<open>bottom = 0\<close> and \<open>height = -1000\<close>, and the covering
  rectangle of its bucket has \<open>bottom = 0\<close> and \<open>top = 1000\<close>.
\<close>

theorem covering_ordered_counterexample:
  "parsedIndex negativeHeightFile
     = Some (\<lparr>offset_x = 0, offset_y = 0\<rparr>,
         [(''/doc/main.tex'',
           [(1, [(1, [element 0 ''/doc/main.tex'' 1 1 0 0 (Some 25) (- 1000)])])])])
   \<and> \<not> cBottom (getCoveringRectangle [element 0 ''/doc/main.tex'' 1 1 0 0 (Some 25) (- 1000)])
         \<ge> cTop (getCoveringRectangle [element 0 ''/doc/main.tex'' 1 1 0 0 (Some 25) (- 1000)])"
  using parse_negativeHeightFile by (simp add: covering_bottom covering_top element_def)

text \<open>
  C9, amended: for every non-empty list of blocks, the rectangle that \<open>boundingBox\<close>
  returns satisfies \<open>bottom \<ge> top\<close> whenever at least one block of the list has a height
  that is not negative; and for every list that \<open>boundingBox\<close> is called on, a bucket of
  the index of a parsed file, it satisfies \<open>right \<ge> left\<close> whenever at least one block of
  the list has a defined width.
\<close>

theorem covering_ordered:
  "((\<exists>b \<in> set bs. 0 \<le> height b)
      \<longrightarrow> cBottom (getCoveringRectangle bs) \<ge> cTop (getCoveringRectangle bs))
   \<and> (parsedIndex t = Some (off, idx) \<and> map_of idx f = Some lpb \<and> map_of lpb l = Some pb
        \<and> map_of pb p = Some bs \<and> (\<exists>b \<in> set bs. width b \<noteq> None)
      \<longrightarrow> cRight (getCoveringRectangle bs) \<ge> cLeft (getCoveringRectangle bs))"
proof (intro conjI impI)
  assume "\<exists>b \<in> set bs. 0 \<le> height b"
  then obtain b where b: "b \<in> set bs" "0 \<le> height b" by blast
  have "cTop (getCoveringRectangle bs) \<le> bottom b - height b"
    unfolding covering_top using b(1) by (intro Min_le) auto
  moreover have "bottom b \<le> cBottom (getCoveringRectangle bs)"
    unfolding covering_bottom using b(1) by (intro Max_ge) auto
  ultimately show "cBottom (getCoveringRectangle bs) \<ge> cTop (getCoveringRectangle bs)"
    using b(2) by linarith
next
  assume h: "parsedIndex t = Some (off, idx) \<and> map_of idx f = Some lpb \<and> map_of lpb l = Some pb
        \<and> map_of pb p = Some bs \<and> (\<exists>b \<in> set bs. width b \<noteq> None)"
  then obtain m where m: "parseSyncTex t = Inr m" "blockNumberLine m = idx"
    by (auto simp: parsedIndex_def split: sum.splits)
  have 1: "map_of (blockNumberLine m) f = Some lpb" using h m(2) by simp
  have 2: "map_of lpb l = Some pb" and 3: "map_of pb p = Some bs" using h by simp_all
  have "rights bs \<noteq> []" using h by (auto simp: rights_def filter_empty_conv)
  then show "cRight (getCoveringRectangle bs) \<ge> cLeft (getCoveringRectangle bs)"
    using parsed_covering(3) [OF m(1) 1 2 3] by simp
qed

theorem covering_ordered_witness:
  "parsedIndex twoLinesFile = Some (\<lparr>offset_x = 0, offset_y = 0\<rparr>, twoLinesIndex)
   \<and> map_of twoLinesIndex ''/doc/main.tex'' = Some twoLines
   \<and> map_of twoLines 12
       = Some [(1, [element 0 ''/doc/main.tex'' 12 1 100 200 (Some 50) 25])]
   \<and> map_of [(1::nat, [element 0 ''/doc/main.tex'' 12 1 100 200 (Some 50) 25])] 1
       = Some [element 0 ''/doc/main.tex'' 12 1 100 200 (Some 50) 25]
   \<and> (\<exists>b \<in> set [element 0 ''/doc/main.tex'' 12 1 100 200 (Some 50) 25]. 0 \<le> height b)
   \<and> (\<exists>b \<in> set [element 0 ''/doc/main.tex'' 12 1 100 200 (Some 50) 25]. width b \<noteq> None)
   \<and> cBottom (getCoveringRectangle [element 0 ''/doc/main.tex'' 12 1 100 200 (Some 50) 25])
       \<ge> cTop (getCoveringRectangle [element 0 ''/doc/main.tex'' 12 1 100 200 (Some 50) 25])
   \<and> cRight (getCoveringRectangle [element 0 ''/doc/main.tex'' 12 1 100 200 (Some 50) 25])
       \<ge> cLeft (getCoveringRectangle [element 0 ''/doc/main.tex'' 12 1 100 200 (Some 50) 25])"
proof -
  let ?e = "element 0 ''/doc/main.tex'' 12 1 100 200 (Some 50) 25"
  have 1: "map_of twoLinesIndex ''/doc/main.tex'' = Some twoLines"
    by (simp add: twoLinesIndex_def)
  have 2: "map_of twoLines 12 = Some [(1, [?e])]" by (simp add: twoLines_def)
  have 3: "map_of [(1::nat, [?e])] 1 = Some [?e]" by simp
  have 4: "\<exists>b \<in> set [?e]. 0 \<le> height b" by (simp add: element_def)
  have 5: "\<exists>b \<in> set [?e]. width b \<noteq> None" by (simp add: element_def)
  show ?thesis
    using parse_twoLinesFile 1 2 3 4 5
      covering_ordered [of "[?e]" twoLinesFile "\<lparr>offset_x = 0, offset_y = 0\<rparr>" twoLinesIndex
        "''/doc/main.tex''" twoLines 12 "[(1, [?e])]" 1]
    by blast
qed

section \<open>Forward search\<close>

subsection \<open>Rounding\<close>

lemma roundEven_of_int: "roundEven (of_int j) = j"
  by (simp add: roundEven_def)

lemma double_eval:
  fixes k :: nat
  assumes "2 ^ k \<le> \<bar>x\<bar>" and "\<bar>x\<bar> < 2 ^ (k + 1)"
  shows "double x = of_int (roundEven (x * 2 ^ 52 / 2 ^ k)) * 2 ^ k / 2 ^ 52"
proof -
  have pos: "0 < \<bar>x\<bar>" using assms(1) by (smt (verit) zero_less_power)
  have "2 powr (of_int (int k)) \<le> \<bar>x\<bar>" using assms(1) by (simp add: powr_realpow)
  moreover have "\<bar>x\<bar> < 2 powr (of_int (int k + 1))"
    using assms(2) by (simp add: powr_realpow powr_add)
  ultimately have fl: "\<lfloor>log 2 \<bar>x\<bar>\<rfloor> = int k"
    using pos floor_log_eq_powr_iff [of "\<bar>x\<bar>" 2 "int k"] by simp
  have q: "2 powr (of_int (int k) - 52) = 2 ^ k / (2 ^ 52 :: real)"
    by (simp add: powr_diff powr_realpow)
  have x0: "x \<noteq> 0" using pos by simp
  have m: "max (int k) (- 1022) = int k" by simp
  show ?thesis
    unfolding double_def Let_def fl m q using x0 by (simp add: field_simps)
qed

lemma double_of_int:
  assumes "\<bar>i\<bar> < 2 ^ 53"
  shows "double (of_int i) = of_int i"
proof (cases "i = 0")
  case True
  then show ?thesis by (simp add: double_def)
next
  case False
  then have "1 \<le> nat \<bar>i\<bar>" by simp
  then obtain k where k: "2 ^ k \<le> nat \<bar>i\<bar>" "nat \<bar>i\<bar> < 2 ^ (k + 1)"
    using ex_power_ivl1 [of 2 "nat \<bar>i\<bar>"] by auto
  have lo: "(2::int) ^ k \<le> \<bar>i\<bar>" using k(1) by (simp add: le_nat_iff flip: of_nat_le_iff)
  have hi: "\<bar>i\<bar> < (2::int) ^ (k + 1)" using k(2) by (simp add: nat_less_iff)
  have lt: "(2::int) ^ k < 2 ^ 53" using lo assms by linarith
  have k52: "k \<le> 52"
  proof (rule ccontr)
    assume "\<not> k \<le> 52"
    then have "53 \<le> k" by simp
    then have "(2::int) ^ 53 \<le> 2 ^ k" by (intro power_increasing) simp_all
    with lt show False by linarith
  qed
  have lo': "(2::real) ^ k \<le> \<bar>of_int i\<bar>"
    using lo by (metis of_int_abs of_int_le_iff of_int_numeral of_int_power)
  have hi': "\<bar>of_int i :: real\<bar> < 2 ^ (k + 1)"
    using hi by (metis of_int_abs of_int_less_iff of_int_numeral of_int_power)
  have p: "(2::real) ^ 52 = 2 ^ (52 - k) * 2 ^ k"
    using k52 by (simp flip: power_add)
  have "real_of_int i * 2 ^ 52 / 2 ^ k = of_int (i * 2 ^ (52 - k))"
    unfolding p by simp
  then have "roundEven (real_of_int i * 2 ^ 52 / 2 ^ k) = i * 2 ^ (52 - k)"
    by (simp only: roundEven_of_int)
  then have "double (of_int i) = of_int (i * 2 ^ (52 - k)) * 2 ^ k / 2 ^ 52"
    using double_eval [OF lo' hi'] by simp
  also have "\<dots> = of_int i" unfolding p by simp
  finally show ?thesis .
qed

lemma double_small:
  "double 0 = 0" "double 1 = 1" "double 2 = 2" "double 3 = 3" "double 4 = 4" "double 8 = 8"
  "double 20 = 20" "double 25 = 25" "double 50 = 50" "double 100 = 100" "double 200 = 200"
  "double 300 = 300" "double 75 = 75" "double 400 = 400"
  using double_of_int [of 0] double_of_int [of 1] double_of_int [of 2] double_of_int [of 3]
    double_of_int [of 4] double_of_int [of 8] double_of_int [of 20] double_of_int [of 25]
    double_of_int [of 50] double_of_int [of 100] double_of_int [of 200] double_of_int [of 300]
    double_of_int [of 75] double_of_int [of 400]
  by simp_all

lemmas js_defs = jsAdd_def jsSub_def jsMul_def jsDiv_def

subsection \<open>The branches of forward search\<close>

lemma findIndex_none: "(\<And>a. a \<in> set as \<Longrightarrow> \<not> P a) \<Longrightarrow> findIndex P as = - 1"
  by (induction as) auto

lemma findIndex_some:
  assumes "\<exists>a \<in> set as. P a"
  shows "0 \<le> findIndex P as \<and> nat (findIndex P as) < length as
       \<and> P (as ! nat (findIndex P as))
       \<and> (\<forall>j < nat (findIndex P as). \<not> P (as ! j))"
  using assms
proof (induction as)
  case Nil
  then show ?case by simp
next
  case (Cons a as)
  show ?case
  proof (cases "P a")
    case True
    then show ?thesis by simp
  next
    case False
    with Cons.prems have ex: "\<exists>a \<in> set as. P a" by auto
    note ih = Cons.IH [OF ex]
    let ?j = "findIndex P as"
    have j: "0 \<le> ?j" using ih by simp
    then have eq: "findIndex P (a # as) = ?j + 1" using False by (simp add: Let_def)
    have n: "nat (?j + 1) = Suc (nat ?j)" using j by simp
    show ?thesis
      unfolding eq n using ih False j
      by (auto simp: less_Suc_eq_0_disj)
  qed
qed


lemma findIndex_sorted_mem:
  fixes n :: nat
  assumes "sorted xs" and "n \<in> set xs"
  shows "atIndex xs (findIndex (\<lambda>k. k \<ge> n) xs) = Some n"
proof -
  let ?i = "findIndex (\<lambda>k. k \<ge> n) xs"
  have ex: "\<exists>a \<in> set xs. a \<ge> n" using assms(2) by auto
  note f = findIndex_some [OF ex]
  obtain j where j: "j < length xs" "xs ! j = n"
    using assms(2) by (auto simp: in_set_conv_nth)
  have "\<not> j < nat ?i" using f j by auto
  then have "xs ! nat ?i \<le> xs ! j"
    using assms(1) j(1) by (intro sorted_nth_mono) auto
  with f j(2) have "xs ! nat ?i = n" by auto
  with f show ?thesis by (simp add: atIndex_def)
qed

lemma findIndex_bracket:
  fixes n :: nat
  assumes "sorted xs" and "L0 \<in> set xs" and "L1 \<in> set xs"
      and "L0 < n" and "n < L1" and "\<forall>k \<in> set xs. \<not> (L0 < k \<and> k < L1)"
  shows "1 \<le> findIndex (\<lambda>k. k \<ge> n) xs
       \<and> atIndex xs (findIndex (\<lambda>k. k \<ge> n) xs) = Some L1
       \<and> atIndex xs (findIndex (\<lambda>k. k \<ge> n) xs - 1) = Some L0"
proof -
  let ?i = "findIndex (\<lambda>k. k \<ge> n) xs"
  have ex: "\<exists>a \<in> set xs. a \<ge> n" using assms(3,5) by (intro bexI [of _ L1]) auto
  note f = findIndex_some [OF ex]
  obtain j0 where j0: "j0 < length xs" "xs ! j0 = L0"
    using assms(2) by (auto simp: in_set_conv_nth)
  obtain j1 where j1: "j1 < length xs" "xs ! j1 = L1"
    using assms(3) by (auto simp: in_set_conv_nth)
  have i_len: "nat ?i < length xs" using f by simp
  have "\<not> j1 < nat ?i" using f j1 assms(5) by auto
  then have le1: "xs ! nat ?i \<le> L1"
    using sorted_nth_mono [OF assms(1), of "nat ?i" j1] j1 by auto
  have gt0: "L0 < xs ! nat ?i" using f assms(4) by auto
  have "xs ! nat ?i \<in> set xs" using i_len by simp
  with assms(6) gt0 le1 have at1: "xs ! nat ?i = L1" by force
  have "\<not> nat ?i \<le> j0"
  proof
    assume "nat ?i \<le> j0"
    then have "xs ! nat ?i \<le> xs ! j0"
      using sorted_nth_mono [OF assms(1), of "nat ?i" j0] j0 by auto
    with gt0 j0(2) show False by simp
  qed
  then have lt: "j0 < nat ?i" by simp
  then have pos: "1 \<le> ?i" by linarith
  have p: "nat (?i - 1) < nat ?i" using pos by linarith
  have "j0 \<le> nat (?i - 1)" using lt pos by linarith
  then have ge0: "L0 \<le> xs ! nat (?i - 1)"
    using sorted_nth_mono [OF assms(1), of j0 "nat (?i - 1)"] j0 p i_len by auto
  have "\<forall>j < nat ?i. \<not> n \<le> xs ! j" using f by blast
  then have "\<not> n \<le> xs ! nat (?i - 1)" using p by blast
  then have ltn: "xs ! nat (?i - 1) < n" by simp
  have "xs ! nat (?i - 1) \<in> set xs" using p i_len by simp
  with assms(6) ge0 ltn assms(5) have at0: "xs ! nat (?i - 1) = L0" by force
  show ?thesis using pos at1 at0 f p i_len by (simp add: atIndex_def)
qed

lemma findIndex_first:
  fixes n :: nat
  assumes "sorted xs" and "L \<in> set xs" and "n \<le> L" and "\<forall>k \<in> set xs. L \<le> k"
  shows "findIndex (\<lambda>k. k \<ge> n) xs = 0 \<and> atIndex xs 0 = Some L"
proof -
  obtain k xs' where xs: "xs = k # xs'" using assms(2) by (cases xs) auto
  have "k \<le> L" using assms(1,2) unfolding xs by auto
  moreover have "L \<le> k" using assms(4) unfolding xs by simp
  ultimately have "k = L" by simp
  then show ?thesis using assms(3) unfolding xs by (simp add: atIndex_def)
qed

lemma forward_exact_branch:
  assumes "map_of (blockNumberLine m) filePath = Some lpb" and "L \<in> fst ` set lpb"
      and "L = lineNo \<or> (lineNo \<le> L \<and> (\<forall>k \<in> fst ` set lpb. L \<le> k))"
  shows "syncTexJsForward lineNo filePath m =
           (case firstPageBlocks lpb (Some L) of
              Inl e \<Rightarrow> Inl e
            | Inr bs \<Rightarrow>
                (case bs of
                   [] \<Rightarrow> Inl TypeError
                 | b # _ \<Rightarrow>
                     Inr \<lparr>page_fw = page b,
                          x_fw = jsAdd (cLeft (getCoveringRectangle bs)) (offset_x (offset m)),
                          y_fw = jsAdd (cBottom (getCoveringRectangle bs)) (offset_y (offset m))\<rparr>))"
proof -
  let ?xs = "sort (ownKeys indexOfNumber lpb)"
  let ?i = "findIndex (\<lambda>k. k \<ge> lineNo) ?xs"
  have mem: "L \<in> set ?xs" using assms(2) by (simp add: set_ownKeys)
  have i: "atIndex ?xs ?i = Some L \<and> (?i = 0 \<or> L = lineNo)"
  proof (cases "L = lineNo")
    case True
    have "atIndex ?xs (findIndex (\<lambda>k. k \<ge> L) ?xs) = Some L"
      using mem by (intro findIndex_sorted_mem) simp_all
    then show ?thesis using True by simp
  next
    case False
    then have h: "lineNo \<le> L" "\<forall>k \<in> set ?xs. L \<le> k"
      using assms(3) by (simp_all add: set_ownKeys)
    have "?i = 0 \<and> atIndex ?xs 0 = Some L"
      using mem h by (intro findIndex_first) simp_all
    then show ?thesis by simp
  qed
  then have c: "?i = 0 \<or> atIndex ?xs ?i = Some lineNo" by auto
  show ?thesis
    unfolding syncTexJsForward_def using assms(1) i c
    by (simp add: Let_def split: sum.splits)
qed

lemma forward_between_branch:
  assumes "map_of (blockNumberLine m) filePath = Some lpb"
      and "L0 \<in> fst ` set lpb" and "L1 \<in> fst ` set lpb"
      and "\<forall>k \<in> fst ` set lpb. \<not> (L0 < k \<and> k < L1)"
      and "L0 < lineNo" and "lineNo < L1"
      and "firstPageBlocks lpb (Some L0) = Inr bs0"
      and "firstPageBlocks lpb (Some L1) = Inr (b1 # bs1)"
  shows "syncTexJsForward lineNo filePath m =
           Inr \<lparr>page_fw = page b1,
                x_fw = jsAdd (cLeft (getCoveringRectangle (b1 # bs1))) (offset_x (offset m)),
                y_fw = jsAdd
                        (jsAdd
                           (jsDiv (jsMul (cBottom (getCoveringRectangle bs0))
                                     (jsSub (real L1) (real lineNo)))
                              (jsSub (real L1) (real L0)))
                           (jsDiv (jsMul (cBottom (getCoveringRectangle (b1 # bs1)))
                                     (jsSub (real lineNo) (real L0)))
                              (jsSub (real L1) (real L0))))
                        (offset_y (offset m))\<rparr>"
proof -
  let ?xs = "sort (ownKeys indexOfNumber lpb)"
  let ?i = "findIndex (\<lambda>k. k \<ge> lineNo) ?xs"
  have br: "1 \<le> ?i \<and> atIndex ?xs ?i = Some L1 \<and> atIndex ?xs (?i - 1) = Some L0"
    using assms(2-6) by (intro findIndex_bracket) (simp_all add: set_ownKeys)
  have ne: "?i \<noteq> 0" "Some L1 \<noteq> Some lineNo" using br assms(6) by auto
  show ?thesis
    unfolding syncTexJsForward_def using assms(1) br ne assms(7,8)
    by (simp add: Let_def)
qed

lemma map_of_pruneIndex:
  "map_of (pruneIndex bnl) f
     = map_option (map (\<lambda>(l, pb). (l, keepLowestPage pb))) (map_of bnl f)"
  unfolding pruneIndex_def by (induction bnl) auto

lemma map_of_pruneLines:
  "map_of (map (\<lambda>(l, pb). (l, keepLowestPage pb)) lpb) n
     = map_option keepLowestPage (map_of lpb n)"
  by (induction lpb) auto

lemma ownKeys_pruneLines:
  "ownKeys idx (map (\<lambda>(l, pb). (l, keepLowestPage pb)) lpb) = ownKeys idx lpb"
proof -
  have "map fst (map (\<lambda>(l, pb). (l, keepLowestPage pb)) lpb) = map fst lpb"
    by (induction lpb) auto
  then show ?thesis unfolding ownKeys_def by (simp only:)
qed

lemma firstPageBlocks_pruneLines:
  "firstPageBlocks (map (\<lambda>(l, pb). (l, keepLowestPage pb)) lpb) x = firstPageBlocks lpb x"
proof (cases x)
  case None
  then show ?thesis by (simp add: firstPageBlocks_def)
next
  case (Some n)
  show ?thesis
    unfolding Some firstPageBlocks_lowest map_of_pruneLines
    by (cases "map_of lpb n") (simp_all add: lowestPageBucket_keep)
qed

lemma forward_pruneIndex:
  "syncTexJsForward lineNo filePath (m\<lparr>blockNumberLine := pruneIndex (blockNumberLine m)\<rparr>)
     = syncTexJsForward lineNo filePath m"
proof (cases "map_of (blockNumberLine m) filePath")
  case None
  then show ?thesis by (simp add: syncTexJsForward_def map_of_pruneIndex)
next
  case (Some lpb)
  let ?m = "m\<lparr>blockNumberLine := pruneIndex (blockNumberLine m)\<rparr>"
  have a: "map_of (blockNumberLine ?m) filePath
             = Some (map (\<lambda>(l, pb). (l, keepLowestPage pb)) lpb)"
    by (simp add: map_of_pruneIndex Some)
  have o: "offset ?m = offset m" by simp
  show ?thesis
    unfolding syncTexJsForward_def a o Some option.case ownKeys_pruneLines
      firstPageBlocks_pruneLines
    by (rule refl)
qed

lemma forward_lowest_bucket:
  assumes "map_of (blockNumberLine m) filePath = Some lpb"
      and "map_of lpb L = Some pb"
      and "lowestPageBucket pb = Some (b # bs)"
      and "L = lineNo \<or> (lineNo \<le> L \<and> (\<forall>k \<in> fst ` set lpb. L \<le> k))"
  shows "syncTexJsForward lineNo filePath m =
           Inr \<lparr>page_fw = page b,
                x_fw = jsAdd (cLeft (getCoveringRectangle (b # bs))) (offset_x (offset m)),
                y_fw = jsAdd (cBottom (getCoveringRectangle (b # bs))) (offset_y (offset m))\<rparr>"
proof -
  have mem: "L \<in> fst ` set lpb" using assms(2) by (force dest: map_of_SomeD)
  have fp: "firstPageBlocks lpb (Some L) = Inr (b # bs)"
    unfolding firstPageBlocks_lowest using assms(2,3) by simp
  show ?thesis
    unfolding forward_exact_branch [OF assms(1) mem assms(4)] fp by simp
qed

lemma lowestPageBucket_nonempty:
  assumes "lowestPageBucket pb = Some bs"
  shows "pb \<noteq> []"
  using assms by (auto simp: lowestPageBucket_def lowestPage_def)

subsection \<open>Example evaluations\<close>

lemmas forward_eval =
  syncTexJsForward_def firstPageBlocks_def withIndex_def twoLinesIndex_def twoLines_def
  ownKeys_def indexOfNumber_def atIndex_def element_def getCoveringRectangle_def
  coverBlock_def Let_def js_defs double_small

lemma forward_twoLines_12:
  "syncTexJsForward 12 ''/doc/main.tex'' (withIndex twoLinesIndex)
     = Inr \<lparr>page_fw = 1, x_fw = 100, y_fw = 200\<rparr>"
  by (simp add: forward_eval)

lemma forward_twoLines_20:
  "syncTexJsForward 20 ''/doc/main.tex'' (withIndex twoLinesIndex)
     = Inr \<lparr>page_fw = 1, x_fw = 100, y_fw = 300\<rparr>"
  by (simp add: forward_eval)

subsection \<open>Exact lines\<close>

text \<open>
  C4, as stated, fails: the first page bucket of a line, in the order in which the buckets
  were recorded, is not always the bucket that forward reads (why is under C8). In
  \<open>pagesOutOfOrder\<close> page 2 comes before page 1. For line 12 the parser records the
  bucket of page 2 first; computing the covering rectangle of that bucket and adding the
  offset gives page 2, \<open>x = 0\<close> and \<open>y = 25\<close>, and forward returns page 1, \<open>x = 0\<close> and
  \<open>y = 50\<close>.
\<close>

theorem forward_exact_counterexample:
  "parsedIndex pagesOutOfOrder
     = Some (\<lparr>offset_x = 0, offset_y = 0\<rparr>, [(''/doc/main.tex'', outOfOrder)])
   \<and> map_of outOfOrder 12 = Some ((2, [element 0 ''/doc/main.tex'' 12 2 0 25 None 25])
                                  # [(1, [element 2 ''/doc/main.tex'' 12 1 0 50 None 25])])
   \<and> \<lparr>page_fw = page (element 0 ''/doc/main.tex'' 12 2 0 25 None 25),
       x_fw = jsAdd (cLeft (getCoveringRectangle [element 0 ''/doc/main.tex'' 12 2 0 25 None 25])) 0,
       y_fw = jsAdd (cBottom (getCoveringRectangle [element 0 ''/doc/main.tex'' 12 2 0 25 None 25])) 0\<rparr>
       = \<lparr>page_fw = 2, x_fw = 0, y_fw = 25\<rparr>
   \<and> forwardOnFile 12 ''/doc/main.tex'' pagesOutOfOrder
       \<noteq> Inr \<lparr>page_fw = 2, x_fw = 0, y_fw = 25\<rparr>"
proof -
  have "syncTexJsForward 12 ''/doc/main.tex'' (withIndex [(''/doc/main.tex'', outOfOrder)])
          = Inr \<lparr>page_fw = 1, x_fw = 0, y_fw = 50\<rparr>"
    by (simp add: forward_eval outOfOrder_def)
  then have f: "forwardOnFile 12 ''/doc/main.tex'' pagesOutOfOrder
          = Inr \<lparr>page_fw = 1, x_fw = 0, y_fw = 50\<rparr>"
    using forwardOnFile_index [OF parse_pagesOutOfOrder] by simp
  have c: "getCoveringRectangle [element 0 ''/doc/main.tex'' 12 2 0 25 None 25]
             = \<lparr>cTop = 0, cBottom = 25, cLeft = 0, cRight = 0\<rparr>"
    by (simp add: getCoveringRectangle_def coverBlock_def element_def)
  have p: "page (element 0 ''/doc/main.tex'' 12 2 0 25 None 25) = 2"
    by (simp add: element_def)
  have o: "map_of outOfOrder 12 = Some ((2, [element 0 ''/doc/main.tex'' 12 2 0 25 None 25])
                                  # [(1, [element 2 ''/doc/main.tex'' 12 1 0 50 None 25])])"
    by (simp add: outOfOrder_def)
  show ?thesis
    unfolding f c p using parse_pagesOutOfOrder o by (simp add: js_defs double_small)
qed

text \<open>
  C4, amended: for every model and every file path in the index, forward with a line
  number that equals a recorded line of the file returns the same page, \<open>x\<close> and \<open>y\<close> as
  computing the covering rectangle of one page bucket of that line and adding the offset
  (the page of the bucket's first element, \<open>x = rect.left + offsetX\<close>,
  \<open>y = rect.bottom + offsetY\<close>, each sum rounded to a double). The bucket is that of the smallest page number of the
  line below \<open>2^32 - 1\<close> (the bucket recorded first when the line has no such page
  number); it is the bucket recorded first whenever the page numbers of the line were
  recorded in ascending order. No other recorded line takes part in the result: nothing
  is interpolated.
\<close>

theorem forward_exact:
  assumes "map_of (blockNumberLine m) filePath = Some lpb"
      and "map_of lpb lineNo = Some pb"
      and "lowestPageBucket pb = Some (b # bs)"
  shows "syncTexJsForward lineNo filePath m =
           Inr \<lparr>page_fw = page b,
                x_fw = jsAdd (cLeft (getCoveringRectangle (b # bs))) (offset_x (offset m)),
                y_fw = jsAdd (cBottom (getCoveringRectangle (b # bs))) (offset_y (offset m))\<rparr>
       \<and> (sorted (map fst pb) \<longrightarrow> snd (hd pb) = b # bs)"
proof (intro conjI impI)
  show "syncTexJsForward lineNo filePath m =
           Inr \<lparr>page_fw = page b,
                x_fw = jsAdd (cLeft (getCoveringRectangle (b # bs))) (offset_x (offset m)),
                y_fw = jsAdd (cBottom (getCoveringRectangle (b # bs))) (offset_y (offset m))\<rparr>"
    using forward_lowest_bucket [OF assms, of lineNo] by simp
next
  assume s: "sorted (map fst pb)"
  have "pb \<noteq> []" using assms(3) by (rule lowestPageBucket_nonempty)
  then have "lowestPageBucket pb = Some (snd (hd pb))" using s by (rule lowestPage_sorted)
  then show "snd (hd pb) = b # bs" using assms(3) by simp
qed

theorem forward_exact_witness:
  "map_of (blockNumberLine (withIndex [(''/doc/main.tex'', outOfOrderTwo)])) ''/doc/main.tex''
     = Some outOfOrderTwo
   \<and> map_of outOfOrderTwo 12
       = Some [(2, [element 0 ''/doc/main.tex'' 12 2 0 25 None 25]),
               (1, [element 2 ''/doc/main.tex'' 12 1 0 50 None 25])]
   \<and> lowestPageBucket [(2, [element 0 ''/doc/main.tex'' 12 2 0 25 None 25]),
                        (1, [element 2 ''/doc/main.tex'' 12 1 0 50 None 25])]
       = Some [element 2 ''/doc/main.tex'' 12 1 0 50 None 25]
   \<and> syncTexJsForward 12 ''/doc/main.tex'' (withIndex [(''/doc/main.tex'', outOfOrderTwo)])
       = Inr \<lparr>page_fw = 1, x_fw = 0, y_fw = 50\<rparr>
   \<and> map_of twoLines 20 = Some [(1, [element 2 ''/doc/main.tex'' 20 1 100 300 None 25])]
   \<and> sorted (map fst [(1::nat, [element 2 ''/doc/main.tex'' 20 1 100 300 None 25])])
   \<and> syncTexJsForward 20 ''/doc/main.tex'' (withIndex twoLinesIndex)
       = Inr \<lparr>page_fw = 1, x_fw = 100, y_fw = 300\<rparr>
   \<and> snd (hd [(1::nat, [element 2 ''/doc/main.tex'' 20 1 100 300 None 25])])
       = [element 2 ''/doc/main.tex'' 20 1 100 300 None 25]"
proof -
  let ?e2 = "element 0 ''/doc/main.tex'' 12 2 0 25 None 25"
  let ?e1 = "element 2 ''/doc/main.tex'' 12 1 0 50 None 25"
  let ?e = "element 2 ''/doc/main.tex'' 20 1 100 300 None 25"
  let ?m = "withIndex [(''/doc/main.tex'', outOfOrderTwo)]"
  have a1: "map_of (blockNumberLine ?m) ''/doc/main.tex'' = Some outOfOrderTwo"
    by (simp add: withIndex_def)
  have a2: "map_of outOfOrderTwo 12 = Some [(2, [?e2]), (1, [?e1])]"
    by (simp add: outOfOrderTwo_def)
  have a3: "lowestPageBucket [(2, [?e2]), (1, [?e1])] = Some (?e1 # [])"
    by (simp add: lowestPageBucket_def lowestPage_def)
  have b1: "map_of (blockNumberLine (withIndex twoLinesIndex)) ''/doc/main.tex'' = Some twoLines"
    by (simp add: withIndex_def twoLinesIndex_def)
  have b2: "map_of twoLines 20 = Some [(1, [?e])]"
    by (simp add: twoLines_def)
  have b3: "lowestPageBucket [(1, [?e])] = Some (?e # [])"
    by (simp add: lowestPageBucket_def lowestPage_def)
  have c1: "getCoveringRectangle [?e1] = \<lparr>cTop = 25, cBottom = 50, cLeft = 0, cRight = 0\<rparr>"
    by (simp add: getCoveringRectangle_def coverBlock_def element_def)
  have c2: "getCoveringRectangle [?e] = \<lparr>cTop = 275, cBottom = 300, cLeft = 100, cRight = 0\<rparr>"
    by (simp add: getCoveringRectangle_def coverBlock_def element_def)
  have p: "page ?e1 = 1" "page ?e = 1" "offset ?m = \<lparr>offset_x = 0, offset_y = 0\<rparr>"
    "offset (withIndex twoLinesIndex) = \<lparr>offset_x = 0, offset_y = 0\<rparr>"
    by (simp_all add: element_def withIndex_def)
  show ?thesis
    using a1 a2 a3 b2 forward_exact [OF a1 a2 a3] forward_exact [OF b1 b2 b3]
    unfolding c1 c2 p by (simp add: js_defs double_small)
qed

text \<open>
  In a parsed file every recorded line has such a bucket, and the bucket is not empty:
  the hypotheses above hold for every recorded line.
\<close>

lemma forward_recorded_parsed:
  assumes "parseSyncTex t = Inr m"
      and "map_of (blockNumberLine m) filePath = Some lpb"
      and "map_of lpb lineNo = Some pb"
  shows "\<exists>b bs.
           lowestPageBucket pb = Some (b # bs)
           \<and> syncTexJsForward lineNo filePath m =
               Inr \<lparr>page_fw = page b,
                    x_fw = jsAdd (cLeft (getCoveringRectangle (b # bs))) (offset_x (offset m)),
                    y_fw = jsAdd (cBottom (getCoveringRectangle (b # bs))) (offset_y (offset m))\<rparr>"
proof -
  obtain pg pgs b bs where k: "ownKeys indexOfNumber pb = pg # pgs"
    and v: "map_of pb pg = Some (b # bs)"
    using parsed_first_bucket [OF assms] by blast
  have "lowestPage pb = Some pg"
    using ownKeys_lowestPage [of pb] k by (cases "lowestPage pb") simp_all
  then have l: "lowestPageBucket pb = Some (b # bs)"
    using v by (simp add: lowestPageBucket_def)
  show ?thesis
    using l forward_lowest_bucket [OF assms(2,3) l] by blast
qed

subsection \<open>Lines between two recorded lines\<close>

lemma roundedBottom_parsed: "double (13156352 / double (6578176 / 100)) = roundedBottom"
proof -
  have u: "double (6578176 / 100) = 4520488125973135 / 68719476736"
    using double_eval [of 16 "6578176 / 100"] by (simp add: roundEven_def)
  show ?thesis
    unfolding u roundedBottom_def
    using double_eval [of 7 "13156352 / (4520488125973135 / 68719476736)"]
    by (simp add: roundEven_def)
qed

lemma roundedBottom_steps:
  "double roundedBottom = roundedBottom"
  "jsMul roundedBottom 2 = 7036874417766401 / 17592186044416"
  "jsDiv (7036874417766401 / 17592186044416) 3 = 4691249611844267 / 35184372088832"
  "jsMul roundedBottom 1 = roundedBottom"
  "jsDiv roundedBottom 3 = 4691249611844267 / 70368744177664"
  "jsAdd (4691249611844267 / 35184372088832) (4691249611844267 / 70368744177664) = 200"
proof -
  show r: "double roundedBottom = roundedBottom"
    unfolding roundedBottom_def
    using double_eval [of 7 "7036874417766401 / 35184372088832"] by (simp add: roundEven_def)
  show "jsMul roundedBottom 2 = 7036874417766401 / 17592186044416"
    unfolding roundedBottom_def jsMul_def
    using double_eval [of 8 "7036874417766401 / 35184372088832 * 2"] by (simp add: roundEven_def)
  show "jsDiv (7036874417766401 / 17592186044416) 3 = 4691249611844267 / 35184372088832"
    unfolding jsDiv_def
    using double_eval [of 7 "7036874417766401 / 17592186044416 / 3"] by (simp add: roundEven_def)
  show "jsMul roundedBottom 1 = roundedBottom"
    using r by (simp add: jsMul_def)
  show "jsDiv roundedBottom 3 = 4691249611844267 / 70368744177664"
    unfolding roundedBottom_def jsDiv_def
    using double_eval [of 6 "7036874417766401 / 35184372088832 / 3"] by (simp add: roundEven_def)
  show "jsAdd (4691249611844267 / 35184372088832) (4691249611844267 / 70368744177664) = 200"
    unfolding jsAdd_def
    using double_eval [of 7 "4691249611844267 / 35184372088832 + 4691249611844267 / 70368744177664"]
    by (simp add: roundEven_def)
qed

text \<open>
  C5: the claim is right about what the interpolation should give, a \<open>y\<close> between the
  \<open>y\<close> of the two recorded lines, and the code does not always give it. Line 358 computes
  \<open>c0.bottom * (L1 - line) / (L1 - L0) + c1.bottom * (line - L0) / (L1 - L0)\<close> in doubles,
  and each product, quotient and sum is rounded. An element recorded at \<open>13156352\<close> gets
  \<open>bottom = 13156352 / 65781.76\<close>, which is \<open>200 + 2^(-45)\<close> in doubles. With such an
  element on lines 12 and 15, forward returns \<open>y = 200 + 2^(-45)\<close> for both lines, and for
  line 13, between them, \<open>y = 200\<close>: less than both.
\<close>

theorem forward_interpolation_not_between:
  "double (13156352 / double (6578176 / 100)) = roundedBottom
   \<and> syncTexJsForward 12 ''/doc/main.tex'' (withIndex equalBottoms)
       = Inr \<lparr>page_fw = 1, x_fw = 0, y_fw = roundedBottom\<rparr>
   \<and> syncTexJsForward 15 ''/doc/main.tex'' (withIndex equalBottoms)
       = Inr \<lparr>page_fw = 1, x_fw = 0, y_fw = roundedBottom\<rparr>
   \<and> syncTexJsForward 13 ''/doc/main.tex'' (withIndex equalBottoms)
       = Inr \<lparr>page_fw = 1, x_fw = 0, y_fw = 200\<rparr>
   \<and> 200 < roundedBottom"
proof -
  let ?e0 = "element 0 ''/doc/main.tex'' 12 1 0 roundedBottom None 25"
  let ?e1 = "element 2 ''/doc/main.tex'' 15 1 0 roundedBottom None 25"
  let ?lpb = "[(12::nat, [(1::nat, [?e0])]), (15, [(1, [?e1])])]"
  let ?m = "withIndex equalBottoms"
  have pos: "0 < roundedBottom" and gt: "200 < roundedBottom"
    by (simp_all add: roundedBottom_def)
  have a: "map_of (blockNumberLine ?m) ''/doc/main.tex'' = Some ?lpb"
    by (simp add: withIndex_def equalBottoms_def)
  have o: "offset ?m = \<lparr>offset_x = 0, offset_y = 0\<rparr>" by (simp add: withIndex_def)
  have k0: "map_of ?lpb 12 = Some [(1, [?e0])]" and k1: "map_of ?lpb 15 = Some [(1, [?e1])]"
    by simp_all
  have l0: "lowestPageBucket [(1, [?e0])] = Some (?e0 # [])"
    and l1: "lowestPageBucket [(1, [?e1])] = Some (?e1 # [])"
    by (simp_all add: lowestPageBucket_def lowestPage_def)
  have c0: "cBottom (getCoveringRectangle [?e0]) = roundedBottom"
    "cLeft (getCoveringRectangle [?e0]) = 0"
    using pos by (simp_all add: covering_bottom covering_left element_def)
  have c1: "cBottom (getCoveringRectangle [?e1]) = roundedBottom"
    "cLeft (getCoveringRectangle [?e1]) = 0"
    using pos by (simp_all add: covering_bottom covering_left element_def)
  have p: "page ?e0 = 1" "page ?e1 = 1" by (simp_all add: element_def)
  have z: "jsAdd 0 0 = 0" "jsAdd roundedBottom 0 = roundedBottom" "jsAdd 200 0 = 200"
    by (simp_all add: jsAdd_def double_small roundedBottom_steps(1))
  have r12: "syncTexJsForward 12 ''/doc/main.tex'' ?m
               = Inr \<lparr>page_fw = 1, x_fw = 0, y_fw = roundedBottom\<rparr>"
    using forward_lowest_bucket [OF a k0 l0, of 12] unfolding c0 p o by (simp add: z)
  have r15: "syncTexJsForward 15 ''/doc/main.tex'' ?m
               = Inr \<lparr>page_fw = 1, x_fw = 0, y_fw = roundedBottom\<rparr>"
    using forward_lowest_bucket [OF a k1 l1, of 15] unfolding c1 p o by (simp add: z)
  have f0: "firstPageBlocks ?lpb (Some 12) = Inr [?e0]"
    unfolding firstPageBlocks_lowest k0 option.case l0 by (rule refl)
  have f1: "firstPageBlocks ?lpb (Some 15) = Inr (?e1 # [])"
    unfolding firstPageBlocks_lowest k1 option.case l1 by (rule refl)
  have s: "jsSub (real 15) (real 13) = 2" "jsSub (real 15) (real 12) = 3"
    "jsSub (real 13) (real 12) = 1"
    by (simp_all add: jsSub_def double_small)
  have r13: "syncTexJsForward 13 ''/doc/main.tex'' ?m
               = Inr \<lparr>page_fw = 1, x_fw = 0, y_fw = 200\<rparr>"
    using forward_between_branch [of ?m "''/doc/main.tex''" ?lpb 12 15 13 "[?e0]" ?e1 "[]",
        OF a _ _ _ _ _ f0 f1]
    unfolding c0 c1 p o s roundedBottom_steps Offset.simps z by simp
  show ?thesis using roundedBottom_parsed r12 r15 r13 gt by simp
qed

subsection \<open>A file that is not in the index\<close>

text \<open>
  C6: the claim is right about what forward should do for a file path that has no entry
  in the index, and the code does not do it. Line 337 reads
  \<open>blockNumberLine[filePath]\<close>, which is \<open>undefined\<close>, and line 338 calls \<open>Object.keys\<close> on
  it: for every requested line the query dies of the engine's \<open>TypeError\<close>, where
  \<open>syncTexJsBackward\<close> raises a \<open>SyncTexJsError\<close> for its own missing data.
\<close>

theorem forward_missing_file:
  assumes "map_of (blockNumberLine m) filePath = None"
  shows "syncTexJsForward lineNo filePath m = Inl TypeError
       \<and> \<not> isLookupError (syncTexJsForward lineNo filePath m)"
  using assms by (simp add: syncTexJsForward_def isLookupError_def)

theorem forward_missing_file_witness:
  "map_of (blockNumberLine (withIndex twoLinesIndex)) ''/doc/other.tex'' = None
   \<and> syncTexJsForward 12 ''/doc/other.tex'' (withIndex twoLinesIndex) = Inl TypeError
   \<and> \<not> isLookupError (syncTexJsForward 12 ''/doc/other.tex'' (withIndex twoLinesIndex))
   \<and> forwardOnFile 12 ''/doc/other.tex'' twoLinesFile = Inl TypeError"
proof -
  have h: "map_of (blockNumberLine (withIndex twoLinesIndex)) ''/doc/other.tex'' = None"
    by (simp add: withIndex_def twoLinesIndex_def)
  show ?thesis
    using h forward_missing_file [OF h, of 12]
    by (simp add: isLookupError_def forwardOnFile_index [OF parse_twoLinesFile])
qed

subsection \<open>A line past the last recorded line\<close>

text \<open>
  C10: when the file is in the index and the requested line is greater than every line
  recorded for it, \<open>findIndex\<close> returns \<open>-1\<close>, neither \<open>i === 0\<close> nor
  \<open>lineNums[i] === line\<close> holds, \<open>lineNums[i - 1]\<close> is \<open>undefined\<close> and so is
  \<open>linePageBlocks[undefined]\<close>: \<open>Object.keys\<close> throws a \<open>TypeError\<close>. Forward returns no
  result, and the error is not one that the locator raises.
\<close>

theorem forward_past_last_line:
  assumes "map_of (blockNumberLine m) filePath = Some lpb"
      and "\<forall>n \<in> fst ` set lpb. n < lineNo"
  shows "syncTexJsForward lineNo filePath m = Inl TypeError
       \<and> \<not> isLookupError (syncTexJsForward lineNo filePath m)"
proof -
  let ?xs = "sort (ownKeys indexOfNumber lpb)"
  have "\<And>a. a \<in> set ?xs \<Longrightarrow> \<not> a \<ge> lineNo"
    using assms(2) by (auto simp: set_ownKeys)
  then have i: "findIndex (\<lambda>k. k \<ge> lineNo) ?xs = - 1"
    by (rule findIndex_none)
  have a1: "atIndex ?xs (- 1) = None" and a2: "atIndex ?xs (- 1 - 1) = None"
    by (simp_all add: atIndex_def)
  have "syncTexJsForward lineNo filePath m = Inl TypeError"
    unfolding syncTexJsForward_def using assms(1) i a1 a2
    by (simp add: Let_def firstPageBlocks_def)
  then show ?thesis by (simp add: isLookupError_def)
qed

theorem forward_past_last_line_witness:
  "map_of (blockNumberLine (withIndex twoLinesIndex)) ''/doc/main.tex'' = Some twoLines
   \<and> fst ` set twoLines = {12, 20}
   \<and> syncTexJsForward 21 ''/doc/main.tex'' (withIndex twoLinesIndex) = Inl TypeError
   \<and> \<not> isLookupError (syncTexJsForward 21 ''/doc/main.tex'' (withIndex twoLinesIndex))
   \<and> forwardOnFile 21 ''/doc/main.tex'' twoLinesFile = Inl TypeError"
proof -
  have h1: "map_of (blockNumberLine (withIndex twoLinesIndex)) ''/doc/main.tex'' = Some twoLines"
    by (simp add: withIndex_def twoLinesIndex_def)
  have h2: "\<forall>n \<in> fst ` set twoLines. n < 21"
    by (simp add: twoLines_def)
  have h3: "fst ` set twoLines = {12, 20}"
    by (simp add: twoLines_def)
  show ?thesis
    using h1 h3 forward_past_last_line [OF h1 h2]
    by (simp add: isLookupError_def forwardOnFile_index [OF parse_twoLinesFile])
qed

subsection \<open>Which page bucket forward uses\<close>

text \<open>
  C8, as stated, fails: \<open>Object.keys\<close> lists the keys of an object that are array indices
  in ascending numeric order, before the other keys and whatever the order in which they
  were created, and a page number is such a key. In the file below page 2 comes before
  page 1; the parser records for line 12 the bucket of page 2 first and that of page 1
  second, and forward answers from the bucket of page 1.
\<close>

theorem forward_first_bucket_counterexample:
  "parsedIndex pagesOutOfOrder
     = Some (\<lparr>offset_x = 0, offset_y = 0\<rparr>, [(''/doc/main.tex'', outOfOrder)])
   \<and> map_of outOfOrder 12
       = Some [(2, [element 0 ''/doc/main.tex'' 12 2 0 25 None 25]),
               (1, [element 2 ''/doc/main.tex'' 12 1 0 50 None 25])]
   \<and> forwardOnFile 12 ''/doc/main.tex'' pagesOutOfOrder
       = Inr \<lparr>page_fw = 1, x_fw = 0, y_fw = 50\<rparr>"
proof -
  have "syncTexJsForward 12 ''/doc/main.tex'' (withIndex [(''/doc/main.tex'', outOfOrder)])
          = Inr \<lparr>page_fw = 1, x_fw = 0, y_fw = 50\<rparr>"
    by (simp add: forward_eval outOfOrder_def)
  then show ?thesis
    using parse_pagesOutOfOrder forwardOnFile_index [OF parse_pagesOutOfOrder]
    by (simp add: outOfOrder_def)
qed

text \<open>
  C8, amended: whenever a recorded line of a file has element buckets on more than one
  page, forward uses only one page bucket of that line, wherever it reads the line
  (lines 343, 350 and 355): the bucket of the first key that \<open>Object.keys\<close> lists, which
  is the smallest page number of the line below \<open>2^32 - 1\<close> (the page recorded first when
  the line has no such page number), and which is the bucket recorded first whenever the
  page numbers of the line were recorded in ascending order. Every other page bucket is
  ignored: for every requested line, forward returns on the index in which every line
  keeps that bucket alone what it returns on the index itself. When the requested line
  is a recorded line, or is not above the first recorded line, the page, \<open>x\<close> and \<open>y\<close> of
  the result are those of that bucket of the line; when it lies strictly between two
  adjacent recorded lines, the page and \<open>x\<close> are those of that bucket of the upper line,
  and \<open>y\<close> is interpolated between the bottoms of that bucket of each of the two lines.
\<close>

theorem forward_first_bucket:
  "syncTexJsForward lineNo filePath (m\<lparr>blockNumberLine := pruneIndex (blockNumberLine m)\<rparr>)
     = syncTexJsForward lineNo filePath m
   \<and> (map_of (blockNumberLine m) filePath = Some lpb \<and> map_of lpb L = Some pb
        \<and> lowestPageBucket pb = Some (b # bs)
        \<and> (L = lineNo \<or> (lineNo \<le> L \<and> (\<forall>k \<in> fst ` set lpb. L \<le> k)))
      \<longrightarrow> syncTexJsForward lineNo filePath m =
            Inr \<lparr>page_fw = page b,
                 x_fw = jsAdd (cLeft (getCoveringRectangle (b # bs))) (offset_x (offset m)),
                 y_fw = jsAdd (cBottom (getCoveringRectangle (b # bs))) (offset_y (offset m))\<rparr>)
   \<and> (map_of (blockNumberLine m) filePath = Some lpb
        \<and> map_of lpb L0 = Some pb0 \<and> map_of lpb L1 = Some pb1
        \<and> (\<forall>k \<in> fst ` set lpb. \<not> (L0 < k \<and> k < L1)) \<and> L0 < lineNo \<and> lineNo < L1
        \<and> lowestPageBucket pb0 = Some bs0 \<and> lowestPageBucket pb1 = Some (b1 # bs1)
      \<longrightarrow> syncTexJsForward lineNo filePath m =
            Inr \<lparr>page_fw = page b1,
                 x_fw = jsAdd (cLeft (getCoveringRectangle (b1 # bs1))) (offset_x (offset m)),
                 y_fw = jsAdd
                        (jsAdd
                           (jsDiv (jsMul (cBottom (getCoveringRectangle bs0))
                                     (jsSub (real L1) (real lineNo)))
                              (jsSub (real L1) (real L0)))
                           (jsDiv (jsMul (cBottom (getCoveringRectangle (b1 # bs1)))
                                     (jsSub (real lineNo) (real L0)))
                              (jsSub (real L1) (real L0))))
                        (offset_y (offset m))\<rparr>)
   \<and> (pb \<noteq> [] \<and> sorted (map fst pb) \<longrightarrow> lowestPageBucket pb = Some (snd (hd pb)))"
proof (intro conjI impI)
  show "syncTexJsForward lineNo filePath (m\<lparr>blockNumberLine := pruneIndex (blockNumberLine m)\<rparr>)
          = syncTexJsForward lineNo filePath m"
    by (rule forward_pruneIndex)
next
  assume h: "map_of (blockNumberLine m) filePath = Some lpb \<and> map_of lpb L = Some pb
        \<and> lowestPageBucket pb = Some (b # bs)
        \<and> (L = lineNo \<or> (lineNo \<le> L \<and> (\<forall>k \<in> fst ` set lpb. L \<le> k)))"
  show "syncTexJsForward lineNo filePath m =
            Inr \<lparr>page_fw = page b,
                 x_fw = jsAdd (cLeft (getCoveringRectangle (b # bs))) (offset_x (offset m)),
                 y_fw = jsAdd (cBottom (getCoveringRectangle (b # bs))) (offset_y (offset m))\<rparr>"
    using h forward_lowest_bucket [of m filePath lpb L pb b bs lineNo] by blast
next
  assume h: "map_of (blockNumberLine m) filePath = Some lpb
        \<and> map_of lpb L0 = Some pb0 \<and> map_of lpb L1 = Some pb1
        \<and> (\<forall>k \<in> fst ` set lpb. \<not> (L0 < k \<and> k < L1)) \<and> L0 < lineNo \<and> lineNo < L1
        \<and> lowestPageBucket pb0 = Some bs0 \<and> lowestPageBucket pb1 = Some (b1 # bs1)"
  have m0: "L0 \<in> fst ` set lpb" and m1: "L1 \<in> fst ` set lpb"
    using h by (force dest: map_of_SomeD)+
  have f0: "firstPageBlocks lpb (Some L0) = Inr bs0"
    unfolding firstPageBlocks_lowest using h by simp
  have f1: "firstPageBlocks lpb (Some L1) = Inr (b1 # bs1)"
    unfolding firstPageBlocks_lowest using h by simp
  show "syncTexJsForward lineNo filePath m =
            Inr \<lparr>page_fw = page b1,
                 x_fw = jsAdd (cLeft (getCoveringRectangle (b1 # bs1))) (offset_x (offset m)),
                 y_fw = jsAdd
                        (jsAdd
                           (jsDiv (jsMul (cBottom (getCoveringRectangle bs0))
                                     (jsSub (real L1) (real lineNo)))
                              (jsSub (real L1) (real L0)))
                           (jsDiv (jsMul (cBottom (getCoveringRectangle (b1 # bs1)))
                                     (jsSub (real lineNo) (real L0)))
                              (jsSub (real L1) (real L0))))
                        (offset_y (offset m))\<rparr>"
    using h m0 m1 f0 f1 by (intro forward_between_branch [of m filePath lpb L0 L1]) simp_all
next
  assume "pb \<noteq> [] \<and> sorted (map fst pb)"
  then show "lowestPageBucket pb = Some (snd (hd pb))"
    by (intro lowestPage_sorted) simp_all
qed

theorem forward_first_bucket_witness:
  "map_of (blockNumberLine (withIndex [(''/doc/main.tex'', outOfOrderTwo)])) ''/doc/main.tex''
     = Some outOfOrderTwo
   \<and> fst ` set outOfOrderTwo = {12, 20}
   \<and> map_of outOfOrderTwo 12
       = Some [(2, [element 0 ''/doc/main.tex'' 12 2 0 25 None 25]),
               (1, [element 2 ''/doc/main.tex'' 12 1 0 50 None 25])]
   \<and> map_of outOfOrderTwo 20
       = Some [(3, [element 4 ''/doc/main.tex'' 20 3 10 75 None 25]),
               (1, [element 6 ''/doc/main.tex'' 20 1 20 100 None 25])]
   \<and> lowestPageBucket [(2, [element 0 ''/doc/main.tex'' 12 2 0 25 None 25]),
                        (1, [element 2 ''/doc/main.tex'' 12 1 0 50 None 25])]
       = Some [element 2 ''/doc/main.tex'' 12 1 0 50 None 25]
   \<and> lowestPageBucket [(3, [element 4 ''/doc/main.tex'' 20 3 10 75 None 25]),
                        (1, [element 6 ''/doc/main.tex'' 20 1 20 100 None 25])]
       = Some [element 6 ''/doc/main.tex'' 20 1 20 100 None 25]
   \<and> syncTexJsForward 12 ''/doc/main.tex'' (withIndex [(''/doc/main.tex'', outOfOrderTwo)])
       = Inr \<lparr>page_fw = 1, x_fw = 0, y_fw = 50\<rparr>
   \<and> syncTexJsForward 5 ''/doc/main.tex'' (withIndex [(''/doc/main.tex'', outOfOrderTwo)])
       = Inr \<lparr>page_fw = 1, x_fw = 0, y_fw = 50\<rparr>
   \<and> syncTexJsForward 16 ''/doc/main.tex'' (withIndex [(''/doc/main.tex'', outOfOrderTwo)])
       = Inr \<lparr>page_fw = 1, x_fw = 20, y_fw = 75\<rparr>
   \<and> syncTexJsForward 16 ''/doc/main.tex''
        ((withIndex [(''/doc/main.tex'', outOfOrderTwo)])
           \<lparr>blockNumberLine :=
              pruneIndex (blockNumberLine (withIndex [(''/doc/main.tex'', outOfOrderTwo)]))\<rparr>)
       = syncTexJsForward 16 ''/doc/main.tex'' (withIndex [(''/doc/main.tex'', outOfOrderTwo)])
   \<and> sorted (map fst [(1::nat, [element 2 ''/doc/main.tex'' 20 1 100 300 None 25])])
   \<and> lowestPageBucket [(1, [element 2 ''/doc/main.tex'' 20 1 100 300 None 25])]
       = Some [element 2 ''/doc/main.tex'' 20 1 100 300 None 25]"
proof -
  let ?e2 = "element 0 ''/doc/main.tex'' 12 2 0 25 None 25"
  let ?e1 = "element 2 ''/doc/main.tex'' 12 1 0 50 None 25"
  let ?f3 = "element 4 ''/doc/main.tex'' 20 3 10 75 None 25"
  let ?f1 = "element 6 ''/doc/main.tex'' 20 1 20 100 None 25"
  let ?e = "element 2 ''/doc/main.tex'' 20 1 100 300 None 25"
  let ?pb0 = "[(2::nat, [?e2]), (1, [?e1])]"
  let ?pb1 = "[(3::nat, [?f3]), (1, [?f1])]"
  let ?m = "withIndex [(''/doc/main.tex'', outOfOrderTwo)]"
  have a1: "map_of (blockNumberLine ?m) ''/doc/main.tex'' = Some outOfOrderTwo"
    by (simp add: withIndex_def)
  have ks: "fst ` set outOfOrderTwo = {12, 20}" by (simp add: outOfOrderTwo_def)
  have a2: "map_of outOfOrderTwo 12 = Some ?pb0" by (simp add: outOfOrderTwo_def)
  have a3: "map_of outOfOrderTwo 20 = Some ?pb1" by (simp add: outOfOrderTwo_def)
  have l0: "lowestPageBucket ?pb0 = Some (?e1 # [])"
    by (simp add: lowestPageBucket_def lowestPage_def)
  have l1: "lowestPageBucket ?pb1 = Some (?f1 # [])"
    by (simp add: lowestPageBucket_def lowestPage_def)
  have c1: "getCoveringRectangle [?e1] = \<lparr>cTop = 25, cBottom = 50, cLeft = 0, cRight = 0\<rparr>"
    by (simp add: getCoveringRectangle_def coverBlock_def element_def)
  have c2: "getCoveringRectangle [?f1] = \<lparr>cTop = 75, cBottom = 100, cLeft = 20, cRight = 0\<rparr>"
    by (simp add: getCoveringRectangle_def coverBlock_def element_def)
  have p: "page ?e1 = 1" "page ?f1 = 1" "offset ?m = \<lparr>offset_x = 0, offset_y = 0\<rparr>"
    by (simp_all add: element_def withIndex_def)
  have h12: "(12::nat) = 12 \<or> ((12::nat) \<le> 12 \<and> (\<forall>k \<in> fst ` set outOfOrderTwo. 12 \<le> k))"
    by simp
  have h5: "(12::nat) = 5 \<or> ((5::nat) \<le> 12 \<and> (\<forall>k \<in> fst ` set outOfOrderTwo. 12 \<le> k))"
    unfolding ks by simp
  have h16: "(\<forall>k \<in> fst ` set outOfOrderTwo. \<not> (12 < k \<and> k < 20)) \<and> (12::nat) < 16 \<and> (16::nat) < 20"
    unfolding ks by simp
  have s: "[(1::nat, [?e])] \<noteq> [] \<and> sorted (map fst [(1::nat, [?e])])" by simp
  note t12 = forward_first_bucket
    [of 12 "''/doc/main.tex''" ?m outOfOrderTwo 12 ?pb0 ?e1 "[]" 12 ?pb0 20 ?pb1 "[?e1]" ?f1 "[]"]
  note t5 = forward_first_bucket
    [of 5 "''/doc/main.tex''" ?m outOfOrderTwo 12 ?pb0 ?e1 "[]" 12 ?pb0 20 ?pb1 "[?e1]" ?f1 "[]"]
  note t16 = forward_first_bucket
    [of 16 "''/doc/main.tex''" ?m outOfOrderTwo 12 "[(1::nat, [?e])]" ?e1 "[]" 12 ?pb0 20 ?pb1
       "[?e1]" ?f1 "[]"]
  have r12: "syncTexJsForward 12 ''/doc/main.tex'' ?m = Inr \<lparr>page_fw = 1, x_fw = 0, y_fw = 50\<rparr>"
    using t12 a1 a2 l0 h12 unfolding c1 p by (simp add: js_defs double_small)
  have r5: "syncTexJsForward 5 ''/doc/main.tex'' ?m = Inr \<lparr>page_fw = 1, x_fw = 0, y_fw = 50\<rparr>"
    using t5 a1 a2 l0 h5 unfolding c1 p by (simp add: js_defs double_small)
  have r16: "syncTexJsForward 16 ''/doc/main.tex'' ?m
               = Inr \<lparr>page_fw = 1, x_fw = 20, y_fw = 75\<rparr>"
    using t16 a1 a2 a3 l0 l1 h16 unfolding c1 c2 p by (simp add: js_defs double_small)
  have q16: "syncTexJsForward 16 ''/doc/main.tex''
               (?m\<lparr>blockNumberLine := pruneIndex (blockNumberLine ?m)\<rparr>)
             = syncTexJsForward 16 ''/doc/main.tex'' ?m"
    using t16 by (rule conjunct1)
  have ls: "lowestPageBucket [(1, [?e])] = Some [?e]"
    using t16 s by simp
  show ?thesis using a1 ks a2 a3 l0 l1 r12 r5 r16 q16 s ls by simp
qed

section \<open>Backward search\<close>


lemma scanPages_spec:
  assumes "fileName \<noteq> []"
      and "map_of bnl fileName = Some lpb" and "map_of lpb lineNum = Some pb"
      and "goodRecord bnl pg r" and "set ks \<subseteq> fst ` set pb"
  shows "case scanPages pg x0 y0 fileName lineNum pb ks r of
           Return res \<Rightarrow>
             res = \<lparr>input_bw = fileName, line_bw = lineNum, column_bw = 0\<rparr>
             \<and> pg \<in> set ks \<and> usablePages pg x0 y0 pb
         | Throw e \<Rightarrow> False
         | Continue r' \<Rightarrow>
             goodRecord bnl pg r'
             \<and> (input_r r' = [] \<longleftrightarrow> input_r r = [] \<and> \<not> (pg \<in> set ks \<and> usablePages pg x0 y0 pb))"
  using assms(4,5)
proof (induction ks arbitrary: r)
  case Nil
  then show ?case by simp
next
  case (Cons k ks)
  have sub: "set ks \<subseteq> fst ` set pb" using Cons.prems(2) by simp
  show ?case
  proof (cases "pg = k")
    case False
    then show ?thesis using Cons.IH [OF Cons.prems(1) sub] by (simp split: Scan.splits)
  next
    case True
    have "k \<in> fst ` set pb" using Cons.prems(2) by simp
    then obtain bs where bs: "map_of pb k = Some bs"
      by (metis map_of_eq_None_iff not_Some_eq)
    let ?box = "getCoveringRectangle bs"
    show ?thesis
    proof (cases "insideBox x0 y0 ?box")
      case True
      then show ?thesis using \<open>pg = k\<close> bs by (simp add: usablePages_def)
    next
      case False
      define d where "d = distanceTo x0 y0 ?box"
      define r1 where "r1 = (if d < distance_r r
                 then r\<lparr>input_r := fileName, line_r := lineNum, distance_r := d\<rparr> else r)"
      have us: "usablePages pg x0 y0 pb \<longleftrightarrow> d < 20000000000000000"
        using \<open>pg = k\<close> bs False by (simp add: usablePages_def d_def)
      have op: "onPage bnl pg fileName lineNum"
        using assms(2,3) bs \<open>pg = k\<close> by (auto simp: onPage_def)
      have g1: "goodRecord bnl pg r1"
        using Cons.prems(1) assms(1) op by (auto simp: goodRecord_def r1_def)
      have e1: "input_r r1 = [] \<longleftrightarrow> input_r r = [] \<and> \<not> d < 20000000000000000"
        using Cons.prems(1) assms(1) by (auto simp: goodRecord_def r1_def)
      have step: "scanPages pg x0 y0 fileName lineNum pb (k # ks) r
                  = scanPages pg x0 y0 fileName lineNum pb ks r1"
        using \<open>pg = k\<close> bs False by (simp add: Let_def r1_def d_def)
      show ?thesis
      proof (cases "scanPages pg x0 y0 fileName lineNum pb ks r1")
        case (Return res)
        then show ?thesis
          unfolding step using Cons.IH [OF g1 sub] by simp
      next
        case (Throw e)
        then show ?thesis
          unfolding step using Cons.IH [OF g1 sub] by simp
      next
        case (Continue r')
        then show ?thesis
          unfolding step using Cons.IH [OF g1 sub] e1 us \<open>pg = k\<close> by auto
      qed
    qed
  qed
qed


lemma usablePages_lookup:
  "usablePages pg x0 y0 pb \<Longrightarrow> \<exists>bs. map_of pb pg = Some bs"
  by (auto simp: usablePages_def split: option.splits)

lemma usablePages_key:
  "usablePages pg x0 y0 pb \<Longrightarrow> pg \<in> set (ownKeys idx pb)"
proof -
  assume "usablePages pg x0 y0 pb"
  then obtain bs where "map_of pb pg = Some bs" using usablePages_lookup by blast
  then have "(pg, bs) \<in> set pb" by (rule map_of_SomeD)
  then have "pg \<in> fst ` set pb" by force
  then show ?thesis by (simp add: set_ownKeys)
qed

lemma scanLines_spec:
  assumes "fileName \<noteq> []" and "map_of bnl fileName = Some lpb"
      and "goodRecord bnl pg r" and "set ls \<subseteq> fst ` set lpb"
  shows "case scanLines pg x0 y0 fileName lpb ls r of
           Return res \<Rightarrow>
             column_bw res = 0 \<and> onPage bnl pg (input_bw res) (line_bw res)
             \<and> (\<exists>l \<in> set ls. \<exists>pb. map_of lpb l = Some pb \<and> usablePages pg x0 y0 pb)
         | Throw e \<Rightarrow> False
         | Continue r' \<Rightarrow>
             goodRecord bnl pg r'
             \<and> (input_r r' = [] \<longleftrightarrow>
                  input_r r = []
                  \<and> \<not> (\<exists>l \<in> set ls. \<exists>pb. map_of lpb l = Some pb \<and> usablePages pg x0 y0 pb))"
  using assms(3,4)
proof (induction ls arbitrary: r)
  case Nil
  then show ?case by simp
next
  case (Cons l ls)
  have sub: "set ls \<subseteq> fst ` set lpb" using Cons.prems(2) by simp
  have "l \<in> fst ` set lpb" using Cons.prems(2) by simp
  then have "\<exists>v. map_of lpb l = Some v" by (rule lookup_key)
  then obtain pb where pb: "map_of lpb l = Some pb" ..
  let ?ks = "ownKeys indexOfNumber pb"
  have ks: "set ?ks \<subseteq> fst ` set pb" by (simp add: set_ownKeys)
  note sp = scanPages_spec [OF assms(1,2) pb Cons.prems(1) ks, of x0 y0]
  have "usablePages pg x0 y0 pb \<Longrightarrow> pg \<in> set ?ks" by (rule usablePages_key)
  then have key: "pg \<in> set ?ks \<and> usablePages pg x0 y0 pb \<longleftrightarrow> usablePages pg x0 y0 pb"
    by blast
  show ?case
  proof (cases "scanPages pg x0 y0 fileName l pb ?ks r")
    case (Return res)
    have res: "res = \<lparr>input_bw = fileName, line_bw = l, column_bw = 0\<rparr>"
      and up: "usablePages pg x0 y0 pb"
      using sp Return by simp_all
    obtain bs where "map_of pb pg = Some bs" using up usablePages_lookup by blast
    then have "onPage bnl pg fileName l"
      using assms(2) pb unfolding onPage_def by blast
    moreover have "\<exists>l' \<in> set (l # ls). \<exists>pb. map_of lpb l' = Some pb \<and> usablePages pg x0 y0 pb"
      using pb up by auto
    ultimately show ?thesis using Return pb res by simp
  next
    case (Throw e)
    then show ?thesis using sp by simp
  next
    case (Continue r1)
    have "goodRecord bnl pg r1
        \<and> (input_r r1 = [] \<longleftrightarrow>
             input_r r = [] \<and> \<not> (pg \<in> set ?ks \<and> usablePages pg x0 y0 pb))"
      using sp Continue by simp
    then have g1: "goodRecord bnl pg r1"
      and e1: "input_r r1 = [] \<longleftrightarrow> input_r r = [] \<and> \<not> usablePages pg x0 y0 pb"
      unfolding key by simp_all
    have ex: "(\<exists>l' \<in> set (l # ls). \<exists>pb. map_of lpb l' = Some pb \<and> usablePages pg x0 y0 pb)
              \<longleftrightarrow> usablePages pg x0 y0 pb
                 \<or> (\<exists>l' \<in> set ls. \<exists>pb. map_of lpb l' = Some pb \<and> usablePages pg x0 y0 pb)"
      using pb by simp
    have step: "scanLines pg x0 y0 fileName lpb (l # ls) r
                = scanLines pg x0 y0 fileName lpb ls r1"
      using pb Continue by simp
    show ?thesis
    proof (cases "scanLines pg x0 y0 fileName lpb ls r1")
      case (Return res)
      then show ?thesis unfolding step ex using Cons.IH [OF g1 sub] by simp
    next
      case (Throw e)
      then show ?thesis unfolding step using Cons.IH [OF g1 sub] by simp
    next
      case (Continue r')
      then show ?thesis unfolding step ex using Cons.IH [OF g1 sub] e1 by simp
    qed
  qed
qed

lemma scanFiles_spec:
  assumes "[] \<notin> set fs" and "goodRecord bnl pg r" and "set fs \<subseteq> fst ` set bnl"
  shows "case scanFiles pg x0 y0 bnl fs r of
           Return res \<Rightarrow>
             column_bw res = 0 \<and> onPage bnl pg (input_bw res) (line_bw res)
             \<and> (\<exists>f \<in> set fs. \<exists>lpb. map_of bnl f = Some lpb \<and> usableLines pg x0 y0 lpb)
         | Throw e \<Rightarrow> False
         | Continue r' \<Rightarrow>
             goodRecord bnl pg r'
             \<and> (input_r r' = [] \<longleftrightarrow>
                  input_r r = []
                  \<and> \<not> (\<exists>f \<in> set fs. \<exists>lpb. map_of bnl f = Some lpb \<and> usableLines pg x0 y0 lpb))"
  using assms
proof (induction fs arbitrary: r)
  case Nil
  then show ?case by simp
next
  case (Cons f fs)
  have sub: "set fs \<subseteq> fst ` set bnl" and ne: "[] \<notin> set fs" and fne: "f \<noteq> []"
    using Cons.prems by auto
  have "f \<in> fst ` set bnl" using Cons.prems(3) by simp
  then have "\<exists>v. map_of bnl f = Some v" by (rule lookup_key)
  then obtain lpb where lpb: "map_of bnl f = Some lpb" ..
  let ?ls = "ownKeys indexOfNumber lpb"
  have ls: "set ?ls \<subseteq> fst ` set lpb" by (simp add: set_ownKeys)
  have ul: "usableLines pg x0 y0 lpb \<longleftrightarrow>
            (\<exists>l \<in> set ?ls. \<exists>pb. map_of lpb l = Some pb \<and> usablePages pg x0 y0 pb)"
    by (simp add: usableLines_def set_ownKeys)
  note sl = scanLines_spec [OF fne lpb Cons.prems(2) ls, of x0 y0]
  show ?case
  proof (cases "length ?ls = 0")
    case True
    then have nu: "\<not> usableLines pg x0 y0 lpb" using ul by simp
    have step: "scanFiles pg x0 y0 bnl (f # fs) r = scanFiles pg x0 y0 bnl fs r"
      using lpb True by (simp add: Let_def)
    show ?thesis
    proof (cases "scanFiles pg x0 y0 bnl fs r")
      case (Return res)
      then show ?thesis unfolding step using Cons.IH [OF ne Cons.prems(2) sub] by auto
    next
      case (Throw e)
      then show ?thesis unfolding step using Cons.IH [OF ne Cons.prems(2) sub] by simp
    next
      case (Continue r')
      then show ?thesis unfolding step using Cons.IH [OF ne Cons.prems(2) sub] nu lpb by auto
    qed
  next
    case False
    show ?thesis
    proof (cases "scanLines pg x0 y0 f lpb ?ls r")
      case (Return res)
      then show ?thesis using sl lpb False ul by (auto simp: Let_def)
    next
      case (Throw e)
      then show ?thesis using sl by simp
    next
      case (Continue r1)
      then have g1: "goodRecord bnl pg r1"
        and e1: "input_r r1 = [] \<longleftrightarrow> input_r r = [] \<and> \<not> usableLines pg x0 y0 lpb"
        using sl ul by auto
      have step: "scanFiles pg x0 y0 bnl (f # fs) r = scanFiles pg x0 y0 bnl fs r1"
        using lpb False Continue by (simp add: Let_def)
      show ?thesis
      proof (cases "scanFiles pg x0 y0 bnl fs r1")
        case (Return res)
        then show ?thesis unfolding step using Cons.IH [OF ne g1 sub] by auto
      next
        case (Throw e)
        then show ?thesis unfolding step using Cons.IH [OF ne g1 sub] by simp
      next
        case (Continue r')
        then show ?thesis unfolding step using Cons.IH [OF ne g1 sub] e1 lpb by auto
      qed
    qed
  qed
qed

lemmas backward_eval =
  syncTexJsBackward_def withIndex_def ownKeys_def indexOfNumber_def indexOfString_def
  isDigit_def element_def getCoveringRectangle_def coverBlock_def insideBox_def
  distanceTo_def Let_def

subsection \<open>A point inside a rectangle\<close>

text \<open>
  C1: the claim is right about what the scan should do, and the code does not do it.
  \<open>getCoveringRectangle\<close> makes \<open>bottom\<close> the greatest and \<open>top\<close> the least of the two, and
  the test of line 418 asks for \<open>box.bottom <= y0 && y0 <= box.top\<close>: it fails for every
  point strictly inside a rectangle. For the model of the claim the query \<open>(1, 5, 5)\<close>
  leaves the three loops without the \<open>return\<close> of line 419 and is answered from
  \<open>record\<close>, at distance 5. In \<open>nestedBoxesFile\<close> the point \<open>(25, 60)\<close> lies inside the
  rectangle of line 7 (top 0, bottom 100) and below that of line 8 (top 25, bottom 50):
  the answer is line 8.
\<close>

theorem backward_containment_not_immediate:
  "getCoveringRectangle [element 0 ''/doc/main.tex'' 7 1 0 10 (Some 10) 10]
     = \<lparr>cTop = 0, cBottom = 10, cLeft = 0, cRight = 10\<rparr>
   \<and> \<not> insideBox 5 5 (getCoveringRectangle [element 0 ''/doc/main.tex'' 7 1 0 10 (Some 10) 10])
   \<and> scanFiles 1 5 5 oneBucket [''/doc/main.tex'']
         \<lparr>input_r = [], line_r = 0, distance_r = 20000000000000000\<rparr>
       = Continue \<lparr>input_r = ''/doc/main.tex'', line_r = 7, distance_r = 5\<rparr>
   \<and> syncTexJsBackward 1 5 5 (withIndex oneBucket)
       = Inr \<lparr>input_bw = ''/doc/main.tex'', line_bw = 7, column_bw = 0\<rparr>
   \<and> parsedIndex nestedBoxesFile = Some (\<lparr>offset_x = 0, offset_y = 0\<rparr>, nestedBoxes)
   \<and> getCoveringRectangle [element 0 ''/doc/main.tex'' 7 1 0 100 (Some 50) 100]
       = \<lparr>cTop = 0, cBottom = 100, cLeft = 0, cRight = 50\<rparr>
   \<and> getCoveringRectangle [element 2 ''/doc/main.tex'' 8 1 0 50 (Some 50) 25]
       = \<lparr>cTop = 25, cBottom = 50, cLeft = 0, cRight = 50\<rparr>
   \<and> backwardOnFile 1 25 60 nestedBoxesFile
       = Inr \<lparr>input_bw = ''/doc/main.tex'', line_bw = 8, column_bw = 0\<rparr>"
proof -
  have "syncTexJsBackward 1 25 60 (withIndex nestedBoxes)
          = Inr \<lparr>input_bw = ''/doc/main.tex'', line_bw = 8, column_bw = 0\<rparr>"
    by (simp add: backward_eval nestedBoxes_def)
  then have "backwardOnFile 1 25 60 nestedBoxesFile
          = Inr \<lparr>input_bw = ''/doc/main.tex'', line_bw = 8, column_bw = 0\<rparr>"
    by (simp add: backwardOnFile_index [OF parse_nestedBoxesFile])
  then show ?thesis
    using parse_nestedBoxesFile by (simp add: backward_eval oneBucket_def)
qed

subsection \<open>When the backward search fails\<close>

lemma usable_ownKeys:
  "usable pg x0 y0 bnl \<longleftrightarrow>
     (\<exists>f \<in> set (ownKeys indexOfString bnl). \<exists>lpb.
        map_of bnl f = Some lpb \<and> usableLines pg x0 y0 lpb)"
  by (simp add: usable_def set_ownKeys)


lemma backward_outcome:
  assumes "[] \<notin> fst ` set (blockNumberLine m)"
  shows "case syncTexJsBackward pg x1 y1 m of
           Inl e \<Rightarrow>
             e = SyncTexJsError
                   (if blockNumberLine m = []
                    then ''no entry of tex file found in the synctex file.''
                    else ''cannot find any line to jump to.'')
             \<and> \<not> usable pg (x1 - offset_x (offset m)) (y1 - offset_y (offset m))
                    (blockNumberLine m)
         | Inr res \<Rightarrow>
             column_bw res = 0
             \<and> onPage (blockNumberLine m) pg (input_bw res) (line_bw res)
             \<and> usable pg (x1 - offset_x (offset m)) (y1 - offset_y (offset m))
                  (blockNumberLine m)"
proof (cases "blockNumberLine m = []")
  case True
  then show ?thesis
    by (simp add: syncTexJsBackward_def ownKeys_def usable_def)
next
  case False
  let ?bnl = "blockNumberLine m"
  let ?x0 = "x1 - offset_x (offset m)"
  let ?y0 = "y1 - offset_y (offset m)"
  let ?fs = "ownKeys indexOfString ?bnl"
  let ?r0 = "\<lparr>input_r = [], line_r = 0, distance_r = 20000000000000000\<rparr>"
  have ne: "length ?fs \<noteq> 0" using False by (simp only: ownKeys_empty) simp
  have fs: "[] \<notin> set ?fs" "set ?fs \<subseteq> fst ` set ?bnl"
    using assms by (simp_all add: set_ownKeys)
  have g0: "goodRecord ?bnl pg ?r0" by (simp add: goodRecord_def)
  note sf = scanFiles_spec [OF fs(1) g0 fs(2), of ?x0 ?y0]
  have bw: "syncTexJsBackward pg x1 y1 m =
              (case scanFiles pg ?x0 ?y0 ?bnl ?fs ?r0 of
                 Return res \<Rightarrow> Inr res
               | Throw e \<Rightarrow> Inl e
               | Continue r \<Rightarrow>
                   if input_r r = [] then Inl (SyncTexJsError ''cannot find any line to jump to.'')
                   else Inr \<lparr>input_bw = input_r r, line_bw = line_r r, column_bw = 0\<rparr>)"
    using ne by (simp add: syncTexJsBackward_def Let_def)
  show ?thesis
  proof (cases "scanFiles pg ?x0 ?y0 ?bnl ?fs ?r0")
    case (Return res)
    then show ?thesis using sf bw by (simp add: usable_ownKeys)
  next
    case (Throw e)
    then show ?thesis using sf by simp
  next
    case (Continue r)
    then have g: "goodRecord ?bnl pg r"
      and e: "input_r r = [] \<longleftrightarrow> \<not> usable pg ?x0 ?y0 ?bnl"
      using sf by (simp_all add: usable_ownKeys)
    show ?thesis
    proof (cases "input_r r = []")
      case True
      then show ?thesis using Continue bw e False by simp
    next
      case nonempty: False
      then have "onPage ?bnl pg (input_r r) (line_r r)"
        using g by (simp add: goodRecord_def)
      then show ?thesis using Continue bw e nonempty by simp
    qed
  qed
qed



text \<open>
  No file name of a parsed file is empty (the pattern of line 131 captures \<open>.+\<close>), so
  the statement holds for every parsed file.
\<close>

lemma backward_outcome_parsed:
  assumes "parseSyncTex t = Inr m"
  shows "case syncTexJsBackward pg x1 y1 m of
           Inl e \<Rightarrow>
             e = SyncTexJsError
                   (if blockNumberLine m = []
                    then ''no entry of tex file found in the synctex file.''
                    else ''cannot find any line to jump to.'')
             \<and> \<not> usable pg (x1 - offset_x (offset m)) (y1 - offset_y (offset m))
                    (blockNumberLine m)
         | Inr res \<Rightarrow>
             column_bw res = 0
             \<and> onPage (blockNumberLine m) pg (input_bw res) (line_bw res)
             \<and> usable pg (x1 - offset_x (offset m)) (y1 - offset_y (offset m))
                  (blockNumberLine m)"
  using parsed_no_empty_name [OF assms] by (rule backward_outcome)

end
